theory Spec2Isabelle
  imports Complex_Main "HOL-Library.Signed_Division"
begin

section \<open>Configuration of a pipeline instance\<close>

text \<open>
  The file-level constants of \<^verbatim>\<open>waifu2x.cpp\<close>: the offset of the input image and the
  number of layers of the network.
\<close>

definition offset :: int where
  "offset = 0"

definition layer_num :: int where
  "layer_num = 7"

text \<open>
  The size fields of the \<^verbatim>\<open>Waifu2x\<close> object, as \<^verbatim>\<open>Waifu2x::init\<close> sets them from its
  arguments \<^verbatim>\<open>CropSize\<close> and \<^verbatim>\<open>BatchSize\<close>.  The source's \<^verbatim>\<open>int\<close> is modelled by
  \<^typ>\<open>int\<close>: every value is an image dimension or a small multiple of one, far from the
  range where a 32-bit integer wraps.
\<close>

record sizes =
  crop_size :: int
  batch_size :: int
  inner_padding :: int
  outer_padding :: int
  output_size :: int
  input_block_size :: int
  original_width_height :: int
  output_block_size :: int

definition init_sizes :: "int \<Rightarrow> int \<Rightarrow> sizes" where
  "init_sizes CropSize BatchSize =
     (let inner = layer_num; outer = 1 in
      \<lparr> crop_size = CropSize,
        batch_size = BatchSize,
        inner_padding = inner,
        outer_padding = outer,
        output_size = CropSize - offset * 2,
        input_block_size = CropSize + (inner + outer) * 2,
        original_width_height = 128 + layer_num * 2,
        output_block_size = CropSize + (inner + outer - layer_num) * 2 \<rparr>)"

section \<open>Geometry of the reconstruction loop\<close>

text \<open>
  The row-major partition of \<^verbatim>\<open>Waifu2x::ReconstructImage\<close>: block \<open>k\<close> (the source's
  \<^verbatim>\<open>num + n\<close>) has column index \<^verbatim>\<open>wn = k % WidthNum\<close>, row index
  \<^verbatim>\<open>hn = k / WidthNum\<close> and origin \<^verbatim>\<open>(wn * output_size, hn * output_size)\<close>.
  The operators \<open>sdiv\<close> and \<open>smod\<close> are the truncating division and remainder of C.
\<close>

definition WidthNum :: "sizes \<Rightarrow> int \<Rightarrow> int" where
  "WidthNum cf Width = Width sdiv output_size cf"

definition HeightNum :: "sizes \<Rightarrow> int \<Rightarrow> int" where
  "HeightNum cf Height = Height sdiv output_size cf"

definition BlockNum :: "sizes \<Rightarrow> int \<Rightarrow> int \<Rightarrow> int" where
  "BlockNum cf Width Height = WidthNum cf Width * HeightNum cf Height"

definition block_w :: "sizes \<Rightarrow> int \<Rightarrow> int \<Rightarrow> int" where
  "block_w cf Width k = (k smod WidthNum cf Width) * output_size cf"

definition block_h :: "sizes \<Rightarrow> int \<Rightarrow> int \<Rightarrow> int" where
  "block_h cf Width k = (k sdiv WidthNum cf Width) * output_size cf"

text \<open>
  The pixels a block writes when it is stitched: \<^verbatim>\<open>crop_size\<close> rows \<^verbatim>\<open>h + i\<close>, each of
  \<^verbatim>\<open>crop_size\<close> columns starting at \<^verbatim>\<open>w\<close>.  A pixel is a pair (column, row).
\<close>

definition in_core :: "sizes \<Rightarrow> int \<Rightarrow> int \<Rightarrow> int \<times> int \<Rightarrow> bool" where
  "in_core cf Width k p =
     (block_w cf Width k \<le> fst p \<and> fst p < block_w cf Width k + crop_size cf \<and>
      block_h cf Width k \<le> snd p \<and> snd p < block_h cf Width k + crop_size cf)"

text \<open>
  The context window of the block at origin \<open>(w, h)\<close>: the rectangle
  \<^verbatim>\<open>cv::Rect(x, y, width, height)\<close> that is cut out of the canvas and the four border
  amounts handed to \<^verbatim>\<open>cv::copyMakeBorder\<close>.  The four clamping statements run in the
  source's order: left, right, top, bottom.
\<close>

record window =
  win_x :: int
  win_y :: int
  win_width :: int
  win_height :: int
  win_top :: int
  win_bottom :: int
  win_left :: int
  win_right :: int

definition clamp_low :: "window \<Rightarrow> window" where
  "clamp_low c =
     (if win_x c < 0
      then c\<lparr> win_left := win_left c + (- win_x c),
              win_width := win_width c - (- win_x c),
              win_x := 0 \<rparr>
      else c)"

definition clamp_right :: "int \<Rightarrow> window \<Rightarrow> window" where
  "clamp_right Width c =
     (if win_x c + win_width c > Width
      then c\<lparr> win_right := win_right c + ((win_x c + win_width c) - Width),
              win_width := Width - win_x c \<rparr>
      else c)"

definition clamp_top :: "window \<Rightarrow> window" where
  "clamp_top c =
     (if win_y c < 0
      then c\<lparr> win_top := win_top c + (- win_y c),
              win_height := win_height c - (- win_y c),
              win_y := 0 \<rparr>
      else c)"

definition clamp_bottom :: "int \<Rightarrow> window \<Rightarrow> window" where
  "clamp_bottom Height c =
     (if win_y c + win_height c > Height
      then c\<lparr> win_bottom := win_bottom c + ((win_y c + win_height c) - Height),
              win_height := Height - win_y c \<rparr>
      else c)"

definition context_window :: "sizes \<Rightarrow> int \<Rightarrow> int \<Rightarrow> int \<Rightarrow> int \<Rightarrow> window" where
  "context_window cf Width Height w h =
     clamp_bottom Height (clamp_top (clamp_right Width (clamp_low
       \<lparr> win_x = w - inner_padding cf,
         win_y = h - inner_padding cf,
         win_width = crop_size cf + inner_padding cf * 2,
         win_height = crop_size cf + inner_padding cf * 2,
         win_top = outer_padding cf,
         win_bottom = outer_padding cf,
         win_left = outer_padding cf,
         win_right = outer_padding cf \<rparr>)))"

text \<open>
  The pixels of a canvas of the given width and height, and the pixels block \<open>k\<close> writes.
\<close>

definition canvas :: "int \<Rightarrow> int \<Rightarrow> (int \<times> int) set" where
  "canvas Width Height = {p. 0 \<le> fst p \<and> fst p < Width \<and> 0 \<le> snd p \<and> snd p < Height}"

definition core_region :: "sizes \<Rightarrow> int \<Rightarrow> int \<Rightarrow> (int \<times> int) set" where
  "core_region cf Width k = {p. in_core cf Width k p}"

section \<open>Facts about the geometry\<close>

lemma sdiv_nonneg_eq:
  fixes a b :: int
  assumes "0 \<le> a" "0 < b"
  shows "a sdiv b = a div b"
  using assms by (simp add: signed_divide_int_def sgn_if)

lemma smod_nonneg_eq:
  fixes a b :: int
  assumes "0 \<le> a" "0 < b"
  shows "a smod b = a mod b"
  using assms by (simp add: signed_modulo_int_def sgn_if)

lemma init_sizes_fields:
  "crop_size (init_sizes c b) = c"
  "batch_size (init_sizes c b) = b"
  "inner_padding (init_sizes c b) = 7"
  "outer_padding (init_sizes c b) = 1"
  "output_size (init_sizes c b) = c"
  "input_block_size (init_sizes c b) = c + 16"
  "output_block_size (init_sizes c b) = c + 2"
  by (simp_all add: init_sizes_def offset_def layer_num_def Let_def)

lemma window_sum:
  "win_width (context_window cf W H w h) + win_left (context_window cf W H w h) + win_right (context_window cf W H w h)
     = crop_size cf + (inner_padding cf + outer_padding cf) * 2"
  by (simp add: context_window_def clamp_low_def clamp_right_def clamp_top_def clamp_bottom_def)

lemma window_sum_v:
  "win_height (context_window cf W H w h) + win_top (context_window cf W H w h) + win_bottom (context_window cf W H w h)
     = crop_size cf + (inner_padding cf + outer_padding cf) * 2"
  by (simp add: context_window_def clamp_low_def clamp_right_def clamp_top_def clamp_bottom_def)

lemma window_inside_h:
  assumes "0 \<le> inner_padding cf" "0 < crop_size cf" "0 \<le> w" "w + crop_size cf \<le> W"
  shows "0 \<le> win_x (context_window cf W H w h)"
    and "0 < win_width (context_window cf W H w h)"
    and "win_x (context_window cf W H w h) + win_width (context_window cf W H w h) \<le> W"
    and "win_x (context_window cf W H w h) \<le> w"
    and "w + crop_size cf \<le> win_x (context_window cf W H w h) + win_width (context_window cf W H w h)"
  using assms
  by (simp_all add: context_window_def clamp_low_def clamp_right_def clamp_top_def clamp_bottom_def)

lemma window_inside_v:
  assumes "0 \<le> inner_padding cf" "0 < crop_size cf" "0 \<le> h" "h + crop_size cf \<le> H"
  shows "0 \<le> win_y (context_window cf W H w h)"
    and "0 < win_height (context_window cf W H w h)"
    and "win_y (context_window cf W H w h) + win_height (context_window cf W H w h) \<le> H"
  using assms
  by (simp_all add: context_window_def clamp_low_def clamp_right_def clamp_top_def clamp_bottom_def)

lemma window_pads_nonneg:
  assumes "0 \<le> outer_padding cf"
  shows "0 \<le> win_left (context_window cf W H w h)"
    and "0 \<le> win_right (context_window cf W H w h)"
    and "0 \<le> win_top (context_window cf W H w h)"
    and "0 \<le> win_bottom (context_window cf W H w h)"
  using assms
  by (simp_all add: context_window_def clamp_low_def clamp_right_def clamp_top_def clamp_bottom_def)

lemma block_origin:
  assumes "0 < c" "0 < W" "c dvd W" "0 \<le> k" "output_size cf = c"
  shows "block_w cf W k = (k mod (W div c)) * c"
    and "block_h cf W k = (k div (W div c)) * c"
proof -
  have "0 < W div c" using assms by (auto simp: pos_imp_zdiv_pos_iff zdvd_imp_le)
  then show "block_w cf W k = (k mod (W div c)) * c" "block_h cf W k = (k div (W div c)) * c"
    using assms by (simp_all add: block_w_def block_h_def WidthNum_def sdiv_nonneg_eq smod_nonneg_eq)
qed

lemma block_in_canvas:
  assumes "0 < c" "0 < W" "c dvd W" "c dvd H" "0 \<le> H" "0 \<le> k" "k < (W div c) * (H div c)" "output_size cf = c"
  shows "0 \<le> block_w cf W k" "block_w cf W k + c \<le> W" "0 \<le> block_h cf W k" "block_h cf W k + c \<le> H"
proof -
  let ?n = "W div c"
  have n: "0 < ?n" using assms by (auto simp: pos_imp_zdiv_pos_iff zdvd_imp_le)
  have W: "W = ?n * c" and H: "H = (H div c) * c" using assms by simp_all
  have a: "0 \<le> k mod ?n" "k mod ?n < ?n" using n by simp_all
  have b: "0 \<le> k div ?n" using n assms by (simp add: pos_imp_zdiv_nonneg_iff)
  have "?n * (k div ?n) \<le> k" using n a by (metis add.commute le_add_same_cancel2 mult_div_mod_eq)
  then have "?n * (k div ?n) < ?n * (H div c)" using assms by linarith
  then have c: "k div ?n < H div c" using n by (simp add: mult_less_cancel_left_pos)
  show "0 \<le> block_w cf W k" "0 \<le> block_h cf W k"
    using a b assms by (simp_all add: block_origin)
  have "(k mod ?n + 1) * c \<le> ?n * c" using a assms by (intro mult_right_mono) simp_all
  then show "block_w cf W k + c \<le> W" using W assms by (simp add: block_origin algebra_simps)
  have "(k div ?n + 1) * c \<le> (H div c) * c" using c assms by (intro mult_right_mono) simp_all
  then show "block_h cf W k + c \<le> H" using H assms by (simp add: block_origin algebra_simps)
qed


lemma div_interval_eq:
  fixes x q c :: int
  assumes "0 < c" "q * c \<le> x" "x < q * c + c"
  shows "x div c = q"
proof -
  have "x = c * q + (x - q * c)" by (simp add: algebra_simps)
  moreover have "0 \<le> x - q * c" "x - q * c < c" using assms by simp_all
  ultimately show ?thesis by (rule int_div_pos_eq)
qed

lemma int_div_bounds:
  fixes x c :: int
  assumes "0 < c"
  shows "(x div c) * c \<le> x" "x < (x div c) * c + c"
proof -
  have e: "x = (x div c) * c + x mod c" by (rule div_mult_mod_eq[symmetric])
  have "0 \<le> x mod c" "x mod c < c" using assms by simp_all
  then show "(x div c) * c \<le> x" "x < (x div c) * c + c" using e by linarith+
qed

lemma int_div_less_of_less_mult:
  fixes x c n :: int
  assumes "0 < c" "x < n * c"
  shows "x div c < n"
proof -
  have "(x div c) * c < n * c" using int_div_bounds(1)[OF assms(1), of x] assms(2) by linarith
  then show ?thesis using assms(1) by (simp add: mult_less_cancel_right_pos)
qed

lemma block_index_unique:
  fixes k n :: int
  assumes "0 < n" "0 \<le> a" "a < n"
  shows "(b * n + a) mod n = a" "(b * n + a) div n = b"
  using assms by simp_all

lemma core_iff:
  assumes "0 < c" "0 < W" "c dvd W" "0 \<le> k" "output_size cf = c" "crop_size cf = c"
  shows "in_core cf W k p \<longleftrightarrow> k = (snd p div c) * (W div c) + fst p div c \<and> 0 \<le> fst p \<and> fst p < W"
proof -
  let ?n = "W div c"
  have n: "0 < ?n" using assms by (auto simp: pos_imp_zdiv_pos_iff zdvd_imp_le)
  have W: "W = ?n * c" using assms by simp
  have bw: "block_w cf W k = (k mod ?n) * c" and bh: "block_h cf W k = (k div ?n) * c"
    using assms by (simp_all add: block_origin)
  show ?thesis
  proof
    assume ic: "in_core cf W k p"
    then have x: "(k mod ?n) * c \<le> fst p" "fst p < (k mod ?n) * c + c"
      and y: "(k div ?n) * c \<le> snd p" "snd p < (k div ?n) * c + c"
      using assms by (simp_all add: in_core_def bw bh)
    have dx: "fst p div c = k mod ?n" using assms(1) x by (rule div_interval_eq)
    have dy: "snd p div c = k div ?n" using assms(1) y by (rule div_interval_eq)
    have "0 \<le> k mod ?n" using n by simp
    then have "0 \<le> (k mod ?n) * c" using assms by simp
    then have p0: "0 \<le> fst p" using x by linarith
    have "k mod ?n + 1 \<le> ?n" using n by (simp add: add1_zle_eq)
    then have "(k mod ?n + 1) * c \<le> ?n * c" using assms by (intro mult_right_mono) simp_all
    then have p1: "fst p < W" using x W by (simp add: algebra_simps)
    have "k = (k div ?n) * ?n + k mod ?n" by (rule div_mult_mod_eq[symmetric])
    then show "k = (snd p div c) * ?n + fst p div c \<and> 0 \<le> fst p \<and> fst p < W"
      using dx dy p0 p1 by simp
  next
    assume h: "k = (snd p div c) * ?n + fst p div c \<and> 0 \<le> fst p \<and> fst p < W"
    have a0: "0 \<le> fst p div c" using h assms by (simp add: pos_imp_zdiv_nonneg_iff)
    have "fst p < ?n * c" using h W by simp
    then have a1: "fst p div c < ?n" using assms(1) by (intro int_div_less_of_less_mult)
    have km: "k mod ?n = fst p div c" and kd: "k div ?n = snd p div c"
      using h block_index_unique[OF n a0 a1, of "snd p div c"] by simp_all
    have "(fst p div c) * c \<le> fst p" "fst p < (fst p div c) * c + c"
         "(snd p div c) * c \<le> snd p" "snd p < (snd p div c) * c + c"
      using int_div_bounds[OF assms(1)] by simp_all
    then show "in_core cf W k p" using assms by (simp add: in_core_def bw bh km kd)
  qed
qed


lemma BlockNum_pos_eq:
  assumes "0 < c" "0 \<le> W" "0 \<le> H" "output_size cf = c"
  shows "BlockNum cf W H = (W div c) * (H div c)"
  using assms by (simp add: BlockNum_def WidthNum_def HeightNum_def sdiv_nonneg_eq)

lemma smod_zero_dvd:
  fixes a b :: int
  assumes "0 \<le> a" "0 < b" "a smod b = 0"
  shows "b dvd a"
  using assms by (simp add: smod_nonneg_eq mod_eq_0_iff_dvd)

lemma core_index_range:
  fixes x y c W H :: int
  assumes "0 < c" "c dvd W" "c dvd H" "0 \<le> x" "x < W" "0 \<le> y" "y < H"
  shows "0 \<le> (y div c) * (W div c) + x div c"
    and "(y div c) * (W div c) + x div c < (W div c) * (H div c)"
proof -
  let ?n = "W div c" and ?m = "H div c"
  have W: "W = ?n * c" and H: "H = ?m * c" using assms by simp_all
  have x0: "0 \<le> x div c" and y0: "0 \<le> y div c" using assms by (simp_all add: pos_imp_zdiv_nonneg_iff)
  have x1: "x div c < ?n" using assms(1) W assms(5) by (intro int_div_less_of_less_mult) simp_all
  have y1: "y div c < ?m" using assms(1) H assms(7) by (intro int_div_less_of_less_mult) simp_all
  have n0: "0 \<le> ?n" using x0 x1 by linarith
  show "0 \<le> (y div c) * ?n + x div c" using x0 y0 n0 by simp
  have "(y div c + 1) * ?n \<le> ?m * ?n" using y1 n0 by (intro mult_right_mono) simp_all
  then show "(y div c) * ?n + x div c < ?n * ?m" using x1 by (simp add: algebra_simps)
qed

text \<open>
  Claim C2.  For a canvas whose width and height are multiples of \<^verbatim>\<open>output_size\<close>, the
  core regions of the blocks \<open>0 \<le> k < BlockNum\<close> of the reconstruction loop cover the
  canvas exactly, and the core regions of two different blocks have no pixel in common.
\<close>

theorem tiling_partition:
  assumes "0 < CropSize" and "0 \<le> Width" and "0 \<le> Height"
    and "Width smod output_size (init_sizes CropSize BatchSize) = 0"
    and "Height smod output_size (init_sizes CropSize BatchSize) = 0"
  shows "(\<Union>k \<in> {0 ..< BlockNum (init_sizes CropSize BatchSize) Width Height}.
            core_region (init_sizes CropSize BatchSize) Width k) = canvas Width Height
       \<and> (\<forall>k \<in> {0 ..< BlockNum (init_sizes CropSize BatchSize) Width Height}.
          \<forall>k' \<in> {0 ..< BlockNum (init_sizes CropSize BatchSize) Width Height}.
            k \<noteq> k' \<longrightarrow>
            core_region (init_sizes CropSize BatchSize) Width k \<inter>
            core_region (init_sizes CropSize BatchSize) Width k' = {})"
proof -
  let ?cf = "init_sizes CropSize BatchSize"
  let ?c = CropSize
  have os: "output_size ?cf = ?c" and cs: "crop_size ?cf = ?c" by (simp_all add: init_sizes_fields)
  have dW: "?c dvd Width" and dH: "?c dvd Height"
    using assms by (auto intro: smod_zero_dvd simp: os)
  have BN: "BlockNum ?cf Width Height = (Width div ?c) * (Height div ?c)"
    using assms os by (intro BlockNum_pos_eq) simp_all
  show ?thesis
  proof (cases "Width = 0 \<or> Height = 0")
    case True
    then have "BlockNum ?cf Width Height = 0" using BN by auto
    moreover have "canvas Width Height = {}" using True by (auto simp: canvas_def)
    ultimately show ?thesis by simp
  next
    case False
    then have Wp: "0 < Width" and Hp: "0 < Height" using assms by simp_all
    have iff: "\<And>k p. 0 \<le> k \<Longrightarrow> in_core ?cf Width k p \<longleftrightarrow>
        k = (snd p div ?c) * (Width div ?c) + fst p div ?c \<and> 0 \<le> fst p \<and> fst p < Width"
      using assms(1) Wp dW os cs by (intro core_iff) simp_all
    have cover: "(\<Union>k \<in> {0 ..< BlockNum ?cf Width Height}. core_region ?cf Width k) = canvas Width Height"
    proof (intro set_eqI iffI)
      fix p assume "p \<in> (\<Union>k \<in> {0 ..< BlockNum ?cf Width Height}. core_region ?cf Width k)"
      then obtain k where k: "0 \<le> k" "k < (Width div ?c) * (Height div ?c)" and ic: "in_core ?cf Width k p"
        using BN by (auto simp: core_region_def)
      have x: "0 \<le> fst p" "fst p < Width" using iff[OF k(1)] ic by simp_all
      have "0 \<le> block_h ?cf Width k" "block_h ?cf Width k + ?c \<le> Height"
        using block_in_canvas(3,4)[OF assms(1) Wp dW dH assms(3) k os] by simp_all
      then have "0 \<le> snd p" "snd p < Height" using ic cs by (simp_all add: in_core_def)
      then show "p \<in> canvas Width Height" using x by (simp add: canvas_def)
    next
      fix p assume "p \<in> canvas Width Height"
      then have b: "0 \<le> fst p" "fst p < Width" "0 \<le> snd p" "snd p < Height"
        by (simp_all add: canvas_def)
      let ?k = "(snd p div ?c) * (Width div ?c) + fst p div ?c"
      have r: "0 \<le> ?k" "?k < (Width div ?c) * (Height div ?c)"
        using core_index_range[OF assms(1) dW dH b] by simp_all
      have "in_core ?cf Width ?k p" using iff[OF r(1)] b by simp
      then show "p \<in> (\<Union>k \<in> {0 ..< BlockNum ?cf Width Height}. core_region ?cf Width k)"
        using r BN by (auto simp: core_region_def)
    qed
    have disj: "\<forall>k \<in> {0 ..< BlockNum ?cf Width Height}. \<forall>k' \<in> {0 ..< BlockNum ?cf Width Height}.
            k \<noteq> k' \<longrightarrow> core_region ?cf Width k \<inter> core_region ?cf Width k' = {}"
    proof (intro ballI impI)
      fix k k' assume k: "k \<in> {0 ..< BlockNum ?cf Width Height}" "k' \<in> {0 ..< BlockNum ?cf Width Height}" "k \<noteq> k'"
      show "core_region ?cf Width k \<inter> core_region ?cf Width k' = {}"
      proof (rule ccontr)
        assume "core_region ?cf Width k \<inter> core_region ?cf Width k' \<noteq> {}"
        then obtain p where "in_core ?cf Width k p" "in_core ?cf Width k' p"
          by (auto simp: core_region_def)
        then have "k = k'" using iff[of k p] iff[of k' p] k by simp
        then show False using k by simp
      qed
    qed
    show ?thesis using cover disj by blast
  qed
qed

text \<open>The partition at crop size 4 on a canvas of 8 by 4 pixels.\<close>

theorem tiling_partition_witness:
  "(0::int) < 4 \<and> (0::int) \<le> 8 \<and> (0::int) \<le> 4
   \<and> 8 smod output_size (init_sizes 4 2) = 0 \<and> 4 smod output_size (init_sizes 4 2) = 0
   \<and> (\<Union>k \<in> {0 ..< BlockNum (init_sizes 4 2) 8 4}. core_region (init_sizes 4 2) 8 k) = canvas 8 4
   \<and> core_region (init_sizes 4 2) 8 0 \<inter> core_region (init_sizes 4 2) 8 1 = {}"
proof -
  have h: "8 smod output_size (init_sizes 4 2) = 0" "4 smod output_size (init_sizes 4 2) = 0"
    by (simp_all add: init_sizes_fields)
  have bn: "BlockNum (init_sizes 4 2) 8 4 = 2"
    by (simp add: BlockNum_def WidthNum_def HeightNum_def init_sizes_fields)
  have t: "(\<Union>k \<in> {0 ..< 2}. core_region (init_sizes 4 2) 8 k) = canvas 8 4
       \<and> (\<forall>k \<in> {0 ..< 2}. \<forall>k' \<in> {0 ..< 2}. k \<noteq> k' \<longrightarrow>
            core_region (init_sizes 4 2) 8 k \<inter> core_region (init_sizes 4 2) 8 k' = {})"
    using tiling_partition[of 4 8 4 2] h by (simp add: bn)
  have "core_region (init_sizes 4 2) 8 0 \<inter> core_region (init_sizes 4 2) 8 1 = {}"
    using t by force
  then show ?thesis using t h by (simp add: bn)
qed

section \<open>Planes\<close>

text \<open>
  A single-channel \<^verbatim>\<open>cv::Mat\<close> is the list of its rows, top row first; the samples are
  of an arbitrary type, since padding, cropping and stitching only copy them.  A matrix
  whose rows all have the length of the first one is called rectangular.

  \<^verbatim>\<open>roi\<close> is the submatrix \<^verbatim>\<open>m(cv::Rect(x, y, width, height))\<close> and \<^verbatim>\<open>copyMakeBorder\<close> is
  \<^verbatim>\<open>cv::copyMakeBorder\<close> with \<^verbatim>\<open>cv::BORDER_REPLICATE\<close>: every border pixel copies the
  nearest pixel of the source.  Both belong to the image library, which raises an exception
  on a rectangle outside the matrix or on a negative border amount; the exception is the
  value \<open>None\<close>.  \<^verbatim>\<open>Waifu2x::PaddingImage\<close> divides by \<^verbatim>\<open>output_size\<close>, so it does not
  return either when that is zero.
\<close>

type_synonym 'a mat = "'a list list"

definition mat_rows :: "'a mat \<Rightarrow> int" where
  "mat_rows m = int (length m)"

definition mat_cols :: "'a mat \<Rightarrow> int" where
  "mat_cols m = (case m of [] \<Rightarrow> 0 | r # _ \<Rightarrow> int (length r))"

definition rectangular :: "'a mat \<Rightarrow> bool" where
  "rectangular m = list_all (\<lambda>r. int (length r) = mat_cols m) m"

definition roi :: "'a mat \<Rightarrow> int \<Rightarrow> int \<Rightarrow> int \<Rightarrow> int \<Rightarrow> 'a mat option" where
  "roi m x y width height =
     (if 0 \<le> x \<and> 0 \<le> width \<and> x + width \<le> mat_cols m \<and>
         0 \<le> y \<and> 0 \<le> height \<and> y + height \<le> mat_rows m
      then Some (map (\<lambda>r. take (nat width) (drop (nat x) r)) (take (nat height) (drop (nat y) m)))
      else None)"

definition border_row :: "nat \<Rightarrow> nat \<Rightarrow> 'a list \<Rightarrow> 'a list" where
  "border_row l r xs = replicate l (hd xs) @ xs @ replicate r (last xs)"

definition border_replicate :: "nat \<Rightarrow> nat \<Rightarrow> nat \<Rightarrow> nat \<Rightarrow> 'a mat \<Rightarrow> 'a mat" where
  "border_replicate t b l r m =
     (let rows = map (border_row l r) m
      in replicate t (hd rows) @ rows @ replicate b (last rows))"

definition copyMakeBorder :: "'a mat \<Rightarrow> int \<Rightarrow> int \<Rightarrow> int \<Rightarrow> int \<Rightarrow> 'a mat option" where
  "copyMakeBorder src tp bt lf rt =
     (if tp < 0 \<or> bt < 0 \<or> lf < 0 \<or> rt < 0 \<or> mat_rows src = 0 \<or> mat_cols src = 0
      then None
      else Some (border_replicate (nat tp) (nat bt) (nat lf) (nat rt) src))"

definition PaddingImage :: "sizes \<Rightarrow> 'a mat \<Rightarrow> 'a mat option" where
  "PaddingImage cf input =
     (if output_size cf = 0 then None
      else
        let h_blocks = (mat_cols input sdiv output_size cf)
                         + (if mat_cols input smod output_size cf = 0 then 0 else 1);
            w_blocks = (mat_rows input sdiv output_size cf)
                         + (if mat_rows input smod output_size cf = 0 then 0 else 1);
            height = offset + h_blocks * output_size cf + offset;
            width = offset + w_blocks * output_size cf + offset;
            pad_h1 = offset;
            pad_w1 = offset;
            pad_h2 = (height - offset) - mat_cols input;
            pad_w2 = (width - offset) - mat_rows input
        in copyMakeBorder input pad_w1 pad_w2 pad_h1 pad_h2)"

lemma rectangular_iff:
  "rectangular m \<longleftrightarrow> (\<forall>r \<in> set m. int (length r) = mat_cols m)"
  by (simp add: rectangular_def list_all_iff)

lemma rectangularI:
  assumes "\<And>r. r \<in> set m \<Longrightarrow> length r = c"
  shows "rectangular m"
  using assms by (cases m) (auto simp: rectangular_iff mat_cols_def)

lemma rectangular_nth:
  assumes "rectangular m" "i < length m"
  shows "int (length (m ! i)) = mat_cols m"
  using assms by (simp add: rectangular_iff)

lemma mat_cols_nth:
  assumes "\<And>r. r \<in> set m \<Longrightarrow> length r = c" "m \<noteq> []"
  shows "mat_cols m = int c"
  using assms by (cases m) (auto simp: mat_cols_def)

lemma border_row_length [simp]:
  "length (border_row l r xs) = l + length xs + r"
  by (simp add: border_row_def)

lemma border_row_nth:
  assumes "xs \<noteq> []" "j < l + length xs + r"
  shows "border_row l r xs ! j = xs ! min (j - l) (length xs - 1)"
proof -
  consider "j < l" | "l \<le> j" "j < l + length xs" | "l + length xs \<le> j" by linarith
  then show ?thesis
  proof cases
    case 1
    then show ?thesis using assms by (simp add: border_row_def nth_append hd_conv_nth)
  next
    case 2
    then have d: "j - l < length xs" by arith
    then have "min (j - l) (length xs - 1) = j - l" by auto
    then show ?thesis using 2 d by (simp add: border_row_def nth_append)
  next
    case 3
    then have "min (j - l) (length xs - 1) = length xs - 1" by auto
    then show ?thesis using 3 assms by (simp add: border_row_def nth_append last_conv_nth)
  qed
qed

lemma border_replicate_length [simp]:
  "length (border_replicate t b l r m) = t + length m + b"
  by (simp add: border_replicate_def Let_def)

lemma border_replicate_nth:
  assumes "m \<noteq> []" "i < t + length m + b"
  shows "border_replicate t b l r m ! i = border_row l r (m ! min (i - t) (length m - 1))"
proof -
  let ?rows = "map (border_row l r) m"
  have ne: "?rows \<noteq> []" and len: "length ?rows = length m" using assms by simp_all
  consider "i < t" | "t \<le> i" "i < t + length m" | "t + length m \<le> i" by linarith
  then show ?thesis
  proof cases
    case 1
    then show ?thesis using assms ne
      by (simp add: border_replicate_def Let_def nth_append hd_conv_nth del: map_is_Nil_conv)
  next
    case 2
    then have d: "i - t < length m" by arith
    then have "min (i - t) (length m - 1) = i - t" by auto
    then show ?thesis using 2 d by (simp add: border_replicate_def Let_def nth_append)
  next
    case 3
    then have "min (i - t) (length m - 1) = length m - 1" by auto
    then show ?thesis using 3 assms ne
      by (simp add: border_replicate_def Let_def nth_append last_conv_nth del: map_is_Nil_conv)
  qed
qed

lemma border_replicate_row_length:
  assumes "m \<noteq> []" "\<And>r. r \<in> set m \<Longrightarrow> length r = c" "q \<in> set (border_replicate t b l r m)"
  shows "length q = l + c + r"
proof -
  obtain i where i: "i < t + length m + b" "q = border_replicate t b l r m ! i"
    using assms(3) by (auto simp: in_set_conv_nth)
  have "0 < length m" using assms(1) by simp
  then have "min (i - t) (length m - 1) < length m" by arith
  then have "length (m ! min (i - t) (length m - 1)) = c" using assms(2) by simp
  then show ?thesis using i assms(1) by (simp add: border_replicate_nth)
qed


lemma round_up_blocks:
  fixes W c :: int
  assumes "0 < c" "0 \<le> W"
  defines "hb \<equiv> W sdiv c + (if W smod c = 0 then 0 else 1)"
  shows "W \<le> hb * c" "hb * c < W + c" "c dvd hb * c"
proof -
  have e: "W = (W div c) * c + W mod c" by (rule div_mult_mod_eq[symmetric])
  have m: "0 \<le> W mod c" "W mod c < c" using assms by simp_all
  have hb: "hb = W div c + (if W mod c = 0 then 0 else 1)"
    using assms by (simp add: sdiv_nonneg_eq smod_nonneg_eq)
  show "W \<le> hb * c"
  proof (cases "W mod c = 0")
    case True then show ?thesis using e hb by simp
  next
    case False
    then have "hb * c = (W div c) * c + c" using hb by (simp add: algebra_simps)
    then show ?thesis using e m by linarith
  qed
  show "hb * c < W + c"
  proof (cases "W mod c = 0")
    case True then show ?thesis using e hb assms by simp
  next
    case False
    then have "hb * c = (W div c) * c + c" using hb by (simp add: algebra_simps)
    moreover have "0 < W mod c" using False m by linarith
    ultimately show ?thesis using e by linarith
  qed
  show "c dvd hb * c" by simp
qed

lemma mat_rows_nonneg [simp]: "0 \<le> mat_rows m"
  by (simp add: mat_rows_def)

lemma mat_cols_nonneg [simp]: "0 \<le> mat_cols m"
  by (simp add: mat_cols_def split: list.splits)

lemma mat_nonempty:
  assumes "0 < mat_rows m"
  shows "m \<noteq> []"
  using assms by (auto simp: mat_rows_def)

lemma rectangular_rows:
  assumes "rectangular m" "r \<in> set m"
  shows "length r = nat (mat_cols m)"
  using assms by (auto simp: rectangular_iff)

lemma border_replicate_dims:
  assumes "rectangular m" "m \<noteq> []"
  shows "rectangular (border_replicate t b l r m)"
    and "mat_rows (border_replicate t b l r m) = int t + mat_rows m + int b"
    and "mat_cols (border_replicate t b l r m) = int l + mat_cols m + int r"
proof -
  let ?p = "border_replicate t b l r m"
  have rows: "\<And>q. q \<in> set ?p \<Longrightarrow> length q = l + nat (mat_cols m) + r"
    using assms by (intro border_replicate_row_length[where m = m and t = t and b = b]) (auto dest: rectangular_rows)
  show "rectangular ?p" using rows by (rule rectangularI)
  show "mat_rows ?p = int t + mat_rows m + int b" by (simp add: mat_rows_def)
  have "?p \<noteq> []" using assms(2) by (simp add: border_replicate_def Let_def)
  then have "mat_cols ?p = int (l + nat (mat_cols m) + r)" using rows by (intro mat_cols_nth) auto
  then show "mat_cols ?p = int l + mat_cols m + int r" by simp
qed

lemma border_replicate_crop:
  assumes "\<And>r. r \<in> set m \<Longrightarrow> length r = c"
  shows "map (\<lambda>q. take c (drop 0 q)) (take (length m) (drop 0 (border_replicate 0 b 0 r m))) = m"
proof -
  have "take (length m) (border_replicate 0 b 0 r m) = map (border_row 0 r) m"
    by (simp add: border_replicate_def Let_def)
  moreover have "map (\<lambda>q. take c q) (map (border_row 0 r) m) = m"
    using assms by (induction m) (simp_all add: border_row_def)
  ultimately show ?thesis by simp
qed

lemma PaddingImage_eq:
  assumes "0 < output_size cf" "rectangular input" "0 < mat_cols input" "0 < mat_rows input"
  shows "PaddingImage cf input = Some (border_replicate 0
           (nat ((mat_rows input sdiv output_size cf + (if mat_rows input smod output_size cf = 0 then 0 else 1)) * output_size cf - mat_rows input))
           0
           (nat ((mat_cols input sdiv output_size cf + (if mat_cols input smod output_size cf = 0 then 0 else 1)) * output_size cf - mat_cols input))
           input)"
proof -
  have a: "mat_cols input \<le> (mat_cols input sdiv output_size cf + (if mat_cols input smod output_size cf = 0 then 0 else 1)) * output_size cf"
    using assms by (intro round_up_blocks(1)) simp_all
  have b: "mat_rows input \<le> (mat_rows input sdiv output_size cf + (if mat_rows input smod output_size cf = 0 then 0 else 1)) * output_size cf"
    using assms by (intro round_up_blocks(1)) simp_all
  show ?thesis using assms a b
    by (simp add: PaddingImage_def copyMakeBorder_def offset_def Let_def)
qed


text \<open>
  Claim C8.  For a plane of positive width and height and a positive tile size, the padding
  step returns a plane whose width and height are the least multiples of the tile size that
  are not below the original ones; every pixel of the result copies the source pixel
  nearest to it, so the source sits in the top-left corner and only the right and bottom
  edges are extended; cropping the result to the original rectangle at the origin gives
  the original plane back.
\<close>

theorem padding_round_trip:
  assumes "0 < CropSize" and "rectangular input" and "0 < mat_cols input" and "0 < mat_rows input"
  shows "\<exists>p. PaddingImage (init_sizes CropSize BatchSize) input = Some p
           \<and> rectangular p
           \<and> CropSize dvd mat_cols p \<and> mat_cols input \<le> mat_cols p \<and> mat_cols p < mat_cols input + CropSize
           \<and> CropSize dvd mat_rows p \<and> mat_rows input \<le> mat_rows p \<and> mat_rows p < mat_rows input + CropSize
           \<and> (\<forall>i j. i < length p \<longrightarrow> j < length (p ! i) \<longrightarrow>
                 p ! i ! j = input ! min i (length input - 1) ! min j (length (input ! 0) - 1))
           \<and> roi p offset offset (mat_cols input) (mat_rows input) = Some input"
proof -
  let ?cf = "init_sizes CropSize BatchSize"
  let ?W = "mat_cols input" and ?H = "mat_rows input"
  define pw where "pw = (?W sdiv CropSize + (if ?W smod CropSize = 0 then 0 else 1)) * CropSize"
  define ph where "ph = (?H sdiv CropSize + (if ?H smod CropSize = 0 then 0 else 1)) * CropSize"
  define p where "p = border_replicate 0 (nat (ph - ?H)) 0 (nat (pw - ?W)) input"
  have os: "output_size ?cf = CropSize" by (simp add: init_sizes_fields)
  have ne: "input \<noteq> []" using assms(4) by (rule mat_nonempty)
  have W: "?W \<le> pw" "pw < ?W + CropSize" "CropSize dvd pw"
    unfolding pw_def using assms(1) by (intro round_up_blocks; simp)+
  have H: "?H \<le> ph" "ph < ?H + CropSize" "CropSize dvd ph"
    unfolding ph_def using assms(1) by (intro round_up_blocks; simp)+
  have P: "PaddingImage ?cf input = Some p"
    using PaddingImage_eq[of ?cf input] assms by (simp add: os p_def pw_def ph_def)
  have rect: "rectangular p" unfolding p_def using assms(2) ne by (rule border_replicate_dims(1))
  have rows: "mat_rows p = ph" unfolding p_def using H
    by (simp add: border_replicate_dims(2)[OF assms(2) ne])
  have cols: "mat_cols p = pw" unfolding p_def using W
    by (simp add: border_replicate_dims(3)[OF assms(2) ne])
  have rl: "\<And>r. r \<in> set input \<Longrightarrow> length r = nat ?W"
    using assms(2) by (rule rectangular_rows)
  have pix: "\<forall>i j. i < length p \<longrightarrow> j < length (p ! i) \<longrightarrow>
                 p ! i ! j = input ! min i (length input - 1) ! min j (length (input ! 0) - 1)"
  proof (intro allI impI)
    fix i j assume i: "i < length p" and j: "j < length (p ! i)"
    let ?r = "input ! min i (length input - 1)"
    have "0 < length input" using ne by simp
    then have il: "min i (length input - 1) < length input" by arith
    have i': "i < 0 + length input + nat (ph - ?H)" using i by (simp add: p_def)
    have row: "p ! i = border_row 0 (nat (pw - ?W)) ?r"
      unfolding p_def using border_replicate_nth[OF ne i'] by simp
    have lr: "length ?r = nat ?W" using il by (intro rl) simp
    have l0: "length (input ! 0) = nat ?W" using ne by (intro rl) simp
    have rne: "?r \<noteq> []" using lr assms(3) by auto
    have j': "j < 0 + length ?r + nat (pw - ?W)" using j row by simp
    show "p ! i ! j = input ! min i (length input - 1) ! min j (length (input ! 0) - 1)"
      using border_row_nth[OF rne j'] row lr l0 by simp
  qed
  have crop: "roi p offset offset ?W ?H = Some input"
  proof -
    have "map (\<lambda>q. take (nat ?W) (drop 0 q)) (take (length input) (drop 0 p)) = input"
      unfolding p_def using rl by (rule border_replicate_crop)
    moreover have "nat ?H = length input" by (simp add: mat_rows_def)
    ultimately show ?thesis using W H rows cols by (simp add: roi_def offset_def)
  qed
  show ?thesis using P rect W H rows cols pix crop by simp
qed

text \<open>A plane of 3 by 2 pixels padded for tile size 2.\<close>

theorem padding_round_trip_witness:
  "(0::int) < 2 \<and> rectangular [[1, 2, 3], [4, 5, 6::int]]
   \<and> 0 < mat_cols [[1, 2, 3], [4, 5, 6::int]] \<and> 0 < mat_rows [[1, 2, 3], [4, 5, 6::int]]
   \<and> PaddingImage (init_sizes 2 1) [[1, 2, 3], [4, 5, 6::int]] = Some [[1, 2, 3, 3], [4, 5, 6, 6]]
   \<and> (\<exists>p. PaddingImage (init_sizes 2 1) [[1, 2, 3], [4, 5, 6::int]] = Some p
        \<and> mat_cols p = 4 \<and> mat_rows p = 2
        \<and> roi p offset offset 3 2 = Some [[1, 2, 3], [4, 5, 6]])"
proof -
  let ?m = "[[1, 2, 3], [4, 5, 6::int]]"
  have h: "rectangular ?m" "0 < mat_cols ?m" "0 < mat_rows ?m"
    by (simp_all add: rectangular_def mat_cols_def mat_rows_def)
  have c: "mat_cols ?m = 3" "mat_rows ?m = 2" by (simp_all add: mat_cols_def mat_rows_def)
  have e: "PaddingImage (init_sizes 2 1) ?m = Some [[1, 2, 3, 3], [4, 5, 6, 6]]"
    by (simp add: PaddingImage_def init_sizes_fields c offset_def copyMakeBorder_def
        border_replicate_def border_row_def Let_def)
  obtain p where p: "PaddingImage (init_sizes 2 1) ?m = Some p"
      "roi p offset offset (mat_cols ?m) (mat_rows ?m) = Some ?m"
    using padding_round_trip[of 2 ?m 1] h by auto
  have "mat_cols p = 4" "mat_rows p = 2" using p(1) e by (auto simp: mat_cols_def mat_rows_def)
  then show ?thesis using h e p c by simp
qed

section \<open>Reconstruction of a canvas by the network\<close>

text \<open>
  The result codes that \<^verbatim>\<open>waifu2x.cpp\<close> returns.
\<close>

datatype eWaifu2xError =
    eWaifu2xError_OK
  | eWaifu2xError_Cancel
  | eWaifu2xError_NotInitialized
  | eWaifu2xError_InvalidParameter
  | eWaifu2xError_FailedOpenInputFile
  | eWaifu2xError_FailedOpenOutputFile
  | eWaifu2xError_FailedOpenModelFile
  | eWaifu2xError_FailedParseModelFile
  | eWaifu2xError_FailedConstructModel
  | eWaifu2xError_FailedProcessCaffe
  | eWaifu2xError_FailedCudaCheck

text \<open>
  The network is an opaque collaborator.  It is the function from the floats it reads (the
  first \<^verbatim>\<open>input_block_plane_size * processNum\<close> floats of \<^verbatim>\<open>input_block\<close>, after
  \<^verbatim>\<open>set_batch_size\<close> and \<^verbatim>\<open>Reset\<close>) to the output blob of \<^verbatim>\<open>ForwardPrefilled\<close>;
  \<open>None\<close> stands for an exception thrown by any of these calls.  The label buffer
  \<^verbatim>\<open>dummy_data\<close> is constant (all zero) and is part of the function.

  \<^verbatim>\<open>input_block\<close> and \<^verbatim>\<open>output_block\<close> are the two float arrays that \<^verbatim>\<open>init\<close> allocates
  and every reconstruction reuses.
\<close>

type_synonym 'a net = "'a list \<Rightarrow> 'a list option"

record 'a blocks =
  input_block :: "'a list"
  output_block :: "'a list"

text \<open>
  \<^verbatim>\<open>memcpy(dst + d, src + s, n * sizeof(float))\<close> on arrays as lists.  The model is
  meaningful where source and destination ranges lie inside their arrays, which the
  theorems below establish for every copy of the reconstruction.
\<close>

definition memcpy :: "'a list \<Rightarrow> nat \<Rightarrow> 'a list \<Rightarrow> nat \<Rightarrow> nat \<Rightarrow> 'a list" where
  "memcpy dst d src s n = take d dst @ take n (drop s src) @ drop (d + n) dst"

text \<open>
  The serialisation of a padded tile into slot \<open>n\<close> of \<^verbatim>\<open>input_block\<close>.  The tile was
  just created by \<^verbatim>\<open>copyMakeBorder\<close>, so it is continuous: its data is the concatenation
  of its rows and its \<^verbatim>\<open>step1()\<close> is its number of columns.
\<close>

definition serialize :: "sizes \<Rightarrow> 'a mat \<Rightarrow> 'a list \<Rightarrow> int \<Rightarrow> 'a list" where
  "serialize cf someborderimg blk n =
     (let input_block_plane_size = input_block_size cf * input_block_size cf;
          fptr = input_block_plane_size * n;
          uptr = concat someborderimg;
          Line = mat_cols someborderimg
      in if input_block_size cf = Line
         then memcpy blk (nat fptr) uptr 0 (nat (input_block_size cf * input_block_size cf))
         else fold (\<lambda>i b. memcpy b (nat (fptr + int i * input_block_size cf))
                                 uptr (nat (int i * Line)) (nat (input_block_size cf)))
                [0 ..< nat (input_block_size cf)] blk)"

text \<open>
  The body of the first inner loop for block \<^verbatim>\<open>num + n\<close>: the guard, the context window,
  the cut \<^verbatim>\<open>im(cv::Rect(x, y, width, height))\<close>, the replicate border and the
  serialisation.  \<open>None\<close> is an exception of the image library, raised before the slot is
  written.  \<^verbatim>\<open>load_blocks\<close> runs the body for a list of values of \<open>n\<close> and reports
  whether it ran to the end, with the buffer as the loop left it.
\<close>

definition load_block :: "sizes \<Rightarrow> 'a mat \<Rightarrow> int \<Rightarrow> int \<Rightarrow> 'a list \<Rightarrow> 'a list option" where
  "load_block cf im num n blk =
     (let Width = mat_cols im;
          Height = mat_rows im;
          w = block_w cf Width (num + n);
          h = block_h cf Width (num + n)
      in if w + crop_size cf \<le> Width \<and> h + crop_size cf \<le> Height
         then (let c = context_window cf Width Height w h
               in case roi im (win_x c) (win_y c) (win_width c) (win_height c) of
                    None \<Rightarrow> None
                  | Some someimg \<Rightarrow>
                      (case copyMakeBorder someimg (win_top c) (win_bottom c) (win_left c) (win_right c) of
                         None \<Rightarrow> None
                       | Some someborderimg \<Rightarrow> Some (serialize cf someborderimg blk n)))
         else Some blk)"

fun load_blocks :: "sizes \<Rightarrow> 'a mat \<Rightarrow> int \<Rightarrow> nat list \<Rightarrow> 'a list \<Rightarrow> bool \<times> 'a list" where
  "load_blocks cf im num [] blk = (True, blk)"
| "load_blocks cf im num (n # ns) blk =
     (case load_block cf im num (int n) blk of
        None \<Rightarrow> (False, blk)
      | Some blk' \<Rightarrow> load_blocks cf im num ns blk')"

text \<open>
  The second inner loop copies the centred \<^verbatim>\<open>crop_size\<close> square of result tile \<open>n\<close> to
  \<^verbatim>\<open>imptr + (h + i) * Line + w\<close>, one row per \<^verbatim>\<open>memcpy\<close>.  The pointer \<^verbatim>\<open>imptr\<close> is the
  data of \<^verbatim>\<open>outim\<close>, a matrix of the size of \<^verbatim>\<open>im\<close> allocated at the start of
  \<^verbatim>\<open>ReconstructImage\<close>; both are continuous, so \<^verbatim>\<open>Line\<close> is the number of columns and the
  address is column \<open>w\<close> of row \<open>h + i\<close> of \<^verbatim>\<open>outim\<close>.
\<close>

definition store_row :: "'a mat \<Rightarrow> nat \<Rightarrow> nat \<Rightarrow> 'a list \<Rightarrow> 'a mat" where
  "store_row m y x seg = m[y := take x (m ! y) @ seg @ drop (x + length seg) (m ! y)]"

definition output_padding :: "sizes \<Rightarrow> int" where
  "output_padding cf = inner_padding cf + outer_padding cf - layer_num"

definition store_block :: "sizes \<Rightarrow> int \<Rightarrow> int \<Rightarrow> 'a list \<Rightarrow> int \<Rightarrow> 'a mat \<Rightarrow> 'a mat" where
  "store_block cf Width num outb n outim =
     (let w = block_w cf Width (num + n);
          h = block_h cf Width (num + n);
          output_block_plane_size = output_block_size cf * output_block_size cf;
          fptr = output_block_plane_size * n
      in fold (\<lambda>i m. store_row m (nat (h + int i)) (nat w)
                 (take (nat (crop_size cf))
                    (drop (nat (fptr + (int i + output_padding cf) * output_block_size cf
                                  + output_padding cf)) outb)))
           [0 ..< nat (crop_size cf)] outim)"

text \<open>
  One batch: \<^verbatim>\<open>processNum\<close> blocks are loaded from the canvas \<^verbatim>\<open>im\<close>, the network runs
  on them, its output is copied to \<^verbatim>\<open>output_block\<close> and the cores are stored into
  \<^verbatim>\<open>outim\<close>.  The state is the pair of the buffers and \<^verbatim>\<open>outim\<close>; the canvas \<^verbatim>\<open>im\<close> is
  an argument that no step changes.  An exception leaves the loop with \<open>None\<close> in place of
  \<^verbatim>\<open>outim\<close>.
\<close>

definition processNum :: "sizes \<Rightarrow> int \<Rightarrow> int \<Rightarrow> int \<Rightarrow> int" where
  "processNum cf Width Height num =
     (if BlockNum cf Width Height - num \<ge> batch_size cf then batch_size cf
      else BlockNum cf Width Height - num)"

definition process_batch ::
  "sizes \<Rightarrow> 'a net \<Rightarrow> 'a mat \<Rightarrow> int \<Rightarrow> 'a blocks \<times> 'a mat \<Rightarrow> 'a blocks \<times> 'a mat option" where
  "process_batch cf net im num st =
     (let Width = mat_cols im;
          Height = mat_rows im;
          input_block_plane_size = input_block_size cf * input_block_size cf;
          output_block_plane_size = output_block_size cf * output_block_size cf;
          pn = processNum cf Width Height num;
          (loaded, inb) = load_blocks cf im num [0 ..< nat pn] (input_block (fst st))
      in if \<not> loaded then ((fst st)\<lparr> input_block := inb \<rparr>, None)
         else (case net (take (nat (input_block_plane_size * pn)) inb) of
                 None \<Rightarrow> ((fst st)\<lparr> input_block := inb \<rparr>, None)
               | Some out \<Rightarrow>
                   (let outb = memcpy (output_block (fst st)) 0 out 0 (nat (output_block_plane_size * pn))
                    in (\<lparr> input_block = inb, output_block = outb \<rparr>,
                        Some (fold (\<lambda>n m. store_block cf Width num outb (int n) m)
                                [0 ..< nat pn] (snd st))))))"

text \<open>
  The loop \<^verbatim>\<open>for (num = 0; num < BlockNum; num += batch_size)\<close>.  It does not terminate
  when \<^verbatim>\<open>batch_size\<close> is not positive, so it is a partial function: \<open>None\<close> is a run that
  does not return.
\<close>

partial_function (option) batch_loop ::
  "sizes \<Rightarrow> 'a net \<Rightarrow> 'a mat \<Rightarrow> int \<Rightarrow> 'a blocks \<times> 'a mat \<Rightarrow> ('a blocks \<times> 'a mat option) option" where
  "batch_loop cf net im num st =
     (if num < BlockNum cf (mat_cols im) (mat_rows im)
      then (case process_batch cf net im num st of
              (blks, None) \<Rightarrow> Some (blks, None)
            | (blks, Some outim) \<Rightarrow> batch_loop cf net im (num + batch_size cf) (blks, outim))
      else Some (fst st, Some (snd st)))"

declare batch_loop.simps [code]

text \<open>
  \<^verbatim>\<open>Waifu2x::ReconstructImage\<close>.  The argument \<open>fresh\<close> is the content of the newly
  allocated \<^verbatim>\<open>outim\<close>.  The \<^verbatim>\<open>catch (...)\<close> turns every exception into
  \<^verbatim>\<open>eWaifu2xError_FailedProcessCaffe\<close>, returned before the assignment \<^verbatim>\<open>im = outim\<close>.
  The two \<^verbatim>\<open>assert\<close>s on the canvas size are hypotheses of the theorems.
\<close>

definition ReconstructImage ::
  "sizes \<Rightarrow> 'a net \<Rightarrow> 'a \<Rightarrow> 'a blocks \<Rightarrow> 'a mat \<Rightarrow> (eWaifu2xError \<times> 'a mat \<times> 'a blocks) option" where
  "ReconstructImage cf net fresh blks im =
     (let outim = map (map (\<lambda>_. fresh)) im
      in case batch_loop cf net im 0 (blks, outim) of
           None \<Rightarrow> None
         | Some (blks', None) \<Rightarrow> Some (eWaifu2xError_FailedProcessCaffe, im, blks')
         | Some (blks', Some outim') \<Rightarrow> Some (eWaifu2xError_OK, outim', blks'))"

text \<open>
  \<^verbatim>\<open>blocks0\<close> are the buffers as \<^verbatim>\<open>init\<close> allocates them, filled with one value.
\<close>

definition blocks0 :: "sizes \<Rightarrow> 'a \<Rightarrow> 'a blocks" where
  "blocks0 cf z = \<lparr> input_block = replicate (nat (input_block_size cf * input_block_size cf * batch_size cf)) z,
                    output_block = replicate (nat (output_block_size cf * output_block_size cf * batch_size cf)) z \<rparr>"

section \<open>Tiles read from the canvas\<close>

text \<open>
  A matrix of \<open>h\<close> rows that all have \<open>w\<close> entries.
\<close>

definition has_dims :: "'a mat \<Rightarrow> nat \<Rightarrow> nat \<Rightarrow> bool" where
  "has_dims m h w = (length m = h \<and> list_all (\<lambda>r. length r = w) m)"

text \<open>
  The serialised tile of block \<open>k\<close> as a function of the canvas \<^verbatim>\<open>im\<close> alone: the context
  window is cut out of \<^verbatim>\<open>im\<close>, bordered, and its rows are concatenated.
\<close>

definition block_input :: "sizes \<Rightarrow> 'a mat \<Rightarrow> int \<Rightarrow> 'a list" where
  "block_input cf im k =
     (let Width = mat_cols im;
          Height = mat_rows im;
          c = context_window cf Width Height (block_w cf Width k) (block_h cf Width k)
      in case roi im (win_x c) (win_y c) (win_width c) (win_height c) of
           None \<Rightarrow> []
         | Some someimg \<Rightarrow>
             (case copyMakeBorder someimg (win_top c) (win_bottom c) (win_left c) (win_right c) of
                None \<Rightarrow> []
              | Some someborderimg \<Rightarrow> concat someborderimg))"

lemma has_dims_iff:
  "has_dims m h w \<longleftrightarrow> length m = h \<and> (\<forall>r \<in> set m. length r = w)"
  by (simp add: has_dims_def list_all_iff)

lemma has_dims_nth:
  assumes "has_dims m h w" "i < h"
  shows "length (m ! i) = w"
  using assms by (simp add: has_dims_iff)

lemma has_dims_of_rectangular:
  assumes "rectangular m"
  shows "has_dims m (nat (mat_rows m)) (nat (mat_cols m))"
  using assms by (auto simp: has_dims_iff mat_rows_def dest: rectangular_rows)

lemma has_dims_rectangular:
  assumes "has_dims m h w" "0 < h"
  shows "rectangular m" "mat_rows m = int h" "mat_cols m = int w"
proof -
  have r: "\<And>r. r \<in> set m \<Longrightarrow> length r = w" using assms by (simp add: has_dims_iff)
  have ne: "m \<noteq> []" using assms by (auto simp: has_dims_iff)
  show "rectangular m" using r by (rule rectangularI)
  show "mat_rows m = int h" using assms by (simp add: has_dims_iff mat_rows_def)
  show "mat_cols m = int w" using r ne by (rule mat_cols_nth)
qed

lemma roi_has_dims:
  assumes "has_dims m H W" "0 < H"
    and "0 \<le> x" "0 \<le> w" "x + w \<le> int W" "0 \<le> y" "0 \<le> h" "y + h \<le> int H"
  shows "roi m x y w h = Some (map (\<lambda>r. take (nat w) (drop (nat x) r)) (take (nat h) (drop (nat y) m)))"
    and "has_dims (map (\<lambda>r. take (nat w) (drop (nat x) r)) (take (nat h) (drop (nat y) m))) (nat h) (nat w)"
proof -
  have d: "mat_rows m = int H" "mat_cols m = int W"
    using has_dims_rectangular[OF assms(1,2)] by simp_all
  show "roi m x y w h = Some (map (\<lambda>r. take (nat w) (drop (nat x) r)) (take (nat h) (drop (nat y) m)))"
    using assms d by (simp add: roi_def)
  have len: "length m = H" and rows: "\<And>r. r \<in> set m \<Longrightarrow> length r = W"
    using assms(1) by (simp_all add: has_dims_iff)
  have l: "length (take (nat h) (drop (nat y) m)) = nat h" using assms len by (simp add: min_def) linarith
  have "\<And>r. r \<in> set (take (nat h) (drop (nat y) m)) \<Longrightarrow> length (take (nat w) (drop (nat x) r)) = nat w"
  proof -
    fix r assume "r \<in> set (take (nat h) (drop (nat y) m))"
    then have "r \<in> set m" by (meson in_set_dropD in_set_takeD)
    then have "length r = W" by (rule rows)
    then show "length (take (nat w) (drop (nat x) r)) = nat w" using assms by (simp add: min_def) linarith
  qed
  then show "has_dims (map (\<lambda>r. take (nat w) (drop (nat x) r)) (take (nat h) (drop (nat y) m))) (nat h) (nat w)"
    using l by (simp add: has_dims_iff)
qed

lemma border_replicate_has_dims:
  assumes "has_dims m h w" "0 < h"
  shows "has_dims (border_replicate t b l r m) (t + h + b) (l + w + r)"
proof -
  have ne: "m \<noteq> []" using assms by (auto simp: has_dims_iff)
  have rows: "\<And>q. q \<in> set m \<Longrightarrow> length q = w" using assms by (simp add: has_dims_iff)
  have "\<And>q. q \<in> set (border_replicate t b l r m) \<Longrightarrow> length q = l + w + r"
    using ne rows by (rule border_replicate_row_length)
  then show ?thesis using assms by (simp add: has_dims_iff)
qed

lemma concat_length_const:
  assumes "\<And>r. r \<in> set m \<Longrightarrow> length r = w"
  shows "length (concat m) = length m * w"
  using assms by (induction m) simp_all

text \<open>The geometry of one block of a canvas whose sides are multiples of the crop size.\<close>

lemma block_geometry:
  assumes "0 < c" "0 < W" "0 < H" "c dvd W" "c dvd H"
    and "0 \<le> k" "k < BlockNum (init_sizes c b) W H"
  shows "0 \<le> block_w (init_sizes c b) W k" "block_w (init_sizes c b) W k + c \<le> W"
    and "0 \<le> block_h (init_sizes c b) W k" "block_h (init_sizes c b) W k + c \<le> H"
proof -
  have os: "output_size (init_sizes c b) = c" by (simp add: init_sizes_fields)
  have k: "k < (W div c) * (H div c)"
    using assms BlockNum_pos_eq[of c W H "init_sizes c b"] os by simp
  have H0: "0 \<le> H" using assms by simp
  show "0 \<le> block_w (init_sizes c b) W k" "block_w (init_sizes c b) W k + c \<le> W"
    "0 \<le> block_h (init_sizes c b) W k" "block_h (init_sizes c b) W k + c \<le> H"
    using block_in_canvas[OF assms(1,2,4,5) H0 assms(6) k os] by simp_all
qed


lemma block_tile:
  assumes "0 < c" "has_dims im H W" "0 < W" "0 < H" "c dvd int W" "c dvd int H"
    and "0 \<le> k" "k < BlockNum (init_sizes c b) (int W) (int H)"
  defines "cw \<equiv> context_window (init_sizes c b) (int W) (int H)
                  (block_w (init_sizes c b) (int W) k) (block_h (init_sizes c b) (int W) k)"
  shows "\<exists>s t. roi im (win_x cw) (win_y cw) (win_width cw) (win_height cw) = Some s
           \<and> copyMakeBorder s (win_top cw) (win_bottom cw) (win_left cw) (win_right cw) = Some t
           \<and> has_dims t (nat (c + 16)) (nat (c + 16))"
proof -
  let ?cf = "init_sizes c b"
  let ?w = "block_w ?cf (int W) k" and ?h = "block_h ?cf (int W) k"
  have g: "0 \<le> ?w" "?w + c \<le> int W" "0 \<le> ?h" "?h + c \<le> int H"
    using block_geometry[of c "int W" "int H" k b] assms by simp_all
  have f: "0 \<le> inner_padding ?cf" "0 < crop_size ?cf" "0 \<le> outer_padding ?cf"
    using assms(1) by (simp_all add: init_sizes_fields)
  have gw: "?w + crop_size ?cf \<le> int W" and gh: "?h + crop_size ?cf \<le> int H"
    using g by (simp_all add: init_sizes_fields)
  have x: "0 \<le> win_x cw" "0 < win_width cw" "win_x cw + win_width cw \<le> int W"
    unfolding cw_def using window_inside_h[OF f(1,2) g(1) gw] by simp_all
  have y: "0 \<le> win_y cw" "0 < win_height cw" "win_y cw + win_height cw \<le> int H"
    unfolding cw_def using window_inside_v[OF f(1,2) g(3) gh] by simp_all
  have p: "0 \<le> win_left cw" "0 \<le> win_right cw" "0 \<le> win_top cw" "0 \<le> win_bottom cw"
    unfolding cw_def using window_pads_nonneg[OF f(3)] by simp_all
  have sw: "win_width cw + win_left cw + win_right cw = c + 16"
    unfolding cw_def by (simp add: window_sum init_sizes_fields)
  have sh: "win_height cw + win_top cw + win_bottom cw = c + 16"
    unfolding cw_def by (simp add: window_sum_v init_sizes_fields)
  define s where "s = map (\<lambda>r. take (nat (win_width cw)) (drop (nat (win_x cw)) r))
                        (take (nat (win_height cw)) (drop (nat (win_y cw)) im))"
  have Hp: "0 < H" by fact
  have rs: "roi im (win_x cw) (win_y cw) (win_width cw) (win_height cw) = Some s"
    unfolding s_def using x y by (intro roi_has_dims(1)[OF assms(2) Hp]) simp_all
  have ds: "has_dims s (nat (win_height cw)) (nat (win_width cw))"
    unfolding s_def using x y by (intro roi_has_dims(2)[OF assms(2) Hp]) simp_all
  have hp: "0 < nat (win_height cw)" using y by simp
  have dsr: "mat_rows s = int (nat (win_height cw))" "mat_cols s = int (nat (win_width cw))"
    using has_dims_rectangular[OF ds hp] by simp_all
  define t where "t = border_replicate (nat (win_top cw)) (nat (win_bottom cw))
                        (nat (win_left cw)) (nat (win_right cw)) s"
  have ct: "copyMakeBorder s (win_top cw) (win_bottom cw) (win_left cw) (win_right cw) = Some t"
    unfolding t_def using p x y dsr by (simp add: copyMakeBorder_def)
  have "has_dims t (nat (win_top cw) + nat (win_height cw) + nat (win_bottom cw))
                   (nat (win_left cw) + nat (win_width cw) + nat (win_right cw))"
    unfolding t_def using ds hp by (rule border_replicate_has_dims)
  moreover have "nat (win_top cw) + nat (win_height cw) + nat (win_bottom cw) = nat (c + 16)"
    using p y sh by linarith
  moreover have "nat (win_left cw) + nat (win_width cw) + nat (win_right cw) = nat (c + 16)"
    using p x sw by linarith
  ultimately have "has_dims t (nat (c + 16)) (nat (c + 16))" by simp
  then show ?thesis using rs ct by blast
qed

lemma memcpy_whole:
  assumes "length src = n"
  shows "memcpy dst d src 0 n = take d dst @ src @ drop (d + n) dst"
  using assms by (simp add: memcpy_def)

lemma block_input_length:
  assumes "0 < c" "has_dims im H W" "0 < W" "0 < H" "c dvd int W" "c dvd int H"
    and "0 \<le> k" "k < BlockNum (init_sizes c b) (int W) (int H)"
  shows "length (block_input (init_sizes c b) im k) = nat (c + 16) * nat (c + 16)"
proof -
  have d: "mat_rows im = int H" "mat_cols im = int W"
    using has_dims_rectangular[OF assms(2,4)] by simp_all
  obtain s t where st: "roi im (win_x (context_window (init_sizes c b) (int W) (int H)
                  (block_w (init_sizes c b) (int W) k) (block_h (init_sizes c b) (int W) k)))
        (win_y (context_window (init_sizes c b) (int W) (int H)
                  (block_w (init_sizes c b) (int W) k) (block_h (init_sizes c b) (int W) k)))
        (win_width (context_window (init_sizes c b) (int W) (int H)
                  (block_w (init_sizes c b) (int W) k) (block_h (init_sizes c b) (int W) k)))
        (win_height (context_window (init_sizes c b) (int W) (int H)
                  (block_w (init_sizes c b) (int W) k) (block_h (init_sizes c b) (int W) k))) = Some s"
     "copyMakeBorder s (win_top (context_window (init_sizes c b) (int W) (int H)
                  (block_w (init_sizes c b) (int W) k) (block_h (init_sizes c b) (int W) k)))
         (win_bottom (context_window (init_sizes c b) (int W) (int H)
                  (block_w (init_sizes c b) (int W) k) (block_h (init_sizes c b) (int W) k)))
         (win_left (context_window (init_sizes c b) (int W) (int H)
                  (block_w (init_sizes c b) (int W) k) (block_h (init_sizes c b) (int W) k)))
         (win_right (context_window (init_sizes c b) (int W) (int H)
                  (block_w (init_sizes c b) (int W) k) (block_h (init_sizes c b) (int W) k))) = Some t"
     "has_dims t (nat (c + 16)) (nat (c + 16))"
    using block_tile[OF assms] by blast
  have "length (concat t) = nat (c + 16) * nat (c + 16)"
    using st(3) concat_length_const[of t "nat (c + 16)"] by (simp add: has_dims_iff)
  then show ?thesis using st d by (simp add: block_input_def Let_def)
qed

lemma load_block_eq:
  assumes "0 < c" "has_dims im H W" "0 < W" "0 < H" "c dvd int W" "c dvd int H"
    and "0 \<le> num + n" "num + n < BlockNum (init_sizes c b) (int W) (int H)" "0 \<le> n"
  shows "load_block (init_sizes c b) im num n blk =
           Some (take (nat (c + 16) * nat (c + 16) * nat n) blk @ block_input (init_sizes c b) im (num + n)
                 @ drop (nat (c + 16) * nat (c + 16) * nat n + nat (c + 16) * nat (c + 16)) blk)"
proof -
  let ?cf = "init_sizes c b"
  let ?cw = "context_window ?cf (int W) (int H) (block_w ?cf (int W) (num + n)) (block_h ?cf (int W) (num + n))"
  have d: "mat_rows im = int H" "mat_cols im = int W"
    using has_dims_rectangular[OF assms(2,4)] by simp_all
  have g: "block_w ?cf (int W) (num + n) + c \<le> int W" "block_h ?cf (int W) (num + n) + c \<le> int H"
    using block_geometry[of c "int W" "int H" "num + n" b] assms by simp_all
  obtain s t where st: "roi im (win_x ?cw) (win_y ?cw) (win_width ?cw) (win_height ?cw) = Some s"
     "copyMakeBorder s (win_top ?cw) (win_bottom ?cw) (win_left ?cw) (win_right ?cw) = Some t"
     "has_dims t (nat (c + 16)) (nat (c + 16))"
    using block_tile[OF assms(1-8)] by blast
  have pos: "0 < nat (c + 16)" using assms(1) by simp
  have tc: "mat_cols t = c + 16" using has_dims_rectangular(3)[OF st(3) pos] assms(1) by simp
  have lt: "length (concat t) = nat (c + 16) * nat (c + 16)"
    using st(3) concat_length_const[of t "nat (c + 16)"] by (simp add: has_dims_iff)
  have bi: "block_input ?cf im (num + n) = concat t"
    using st d by (simp add: block_input_def Let_def)
  have n1: "nat ((c + 16) * (c + 16) * n) = nat (c + 16) * nat (c + 16) * nat n"
    using assms(1,9) by (simp add: nat_mult_distrib)
  have n2: "nat ((c + 16) * (c + 16)) = nat (c + 16) * nat (c + 16)"
    using assms(1) by (simp add: nat_mult_distrib)
  have "serialize ?cf t blk n = take (nat (c + 16) * nat (c + 16) * nat n) blk @ concat t
          @ drop (nat (c + 16) * nat (c + 16) * nat n + nat (c + 16) * nat (c + 16)) blk"
    using lt by (simp add: serialize_def init_sizes_fields tc Let_def n1 n2 memcpy_whole)
  then show ?thesis using st d g bi
    by (simp add: load_block_def Let_def init_sizes_fields)
qed


text \<open>
  Claim C1.  On a canvas whose width and height are multiples of \<^verbatim>\<open>output_size\<close>, for every
  block \<open>0 \<le> k < BlockNum\<close>: the clamped rectangle of the context window is not empty and
  lies inside the canvas, the four border amounts are not negative, on each axis the
  clamped extent plus the two border amounts is \<^verbatim>\<open>input_block_size\<close>, and cutting the
  rectangle out of the canvas and bordering it succeeds with a tile of
  \<^verbatim>\<open>input_block_size\<close> rows and columns.
\<close>

theorem context_window_clamped:
  fixes im :: "'a mat"
  assumes "0 < CropSize" and "rectangular im" and "0 < mat_cols im" and "0 < mat_rows im"
    and "mat_cols im smod output_size (init_sizes CropSize BatchSize) = 0"
    and "mat_rows im smod output_size (init_sizes CropSize BatchSize) = 0"
    and "0 \<le> k" and "k < BlockNum (init_sizes CropSize BatchSize) (mat_cols im) (mat_rows im)"
  defines "cw \<equiv> context_window (init_sizes CropSize BatchSize) (mat_cols im) (mat_rows im)
                  (block_w (init_sizes CropSize BatchSize) (mat_cols im) k)
                  (block_h (init_sizes CropSize BatchSize) (mat_cols im) k)"
  shows "0 \<le> win_x cw \<and> 0 < win_width cw \<and> win_x cw + win_width cw \<le> mat_cols im
       \<and> 0 \<le> win_y cw \<and> 0 < win_height cw \<and> win_y cw + win_height cw \<le> mat_rows im
       \<and> 0 \<le> win_left cw \<and> 0 \<le> win_right cw \<and> 0 \<le> win_top cw \<and> 0 \<le> win_bottom cw
       \<and> win_width cw + win_left cw + win_right cw = input_block_size (init_sizes CropSize BatchSize)
       \<and> win_height cw + win_top cw + win_bottom cw = input_block_size (init_sizes CropSize BatchSize)
       \<and> (\<exists>s t. roi im (win_x cw) (win_y cw) (win_width cw) (win_height cw) = Some s
              \<and> copyMakeBorder s (win_top cw) (win_bottom cw) (win_left cw) (win_right cw) = Some t
              \<and> rectangular t
              \<and> mat_rows t = input_block_size (init_sizes CropSize BatchSize)
              \<and> mat_cols t = input_block_size (init_sizes CropSize BatchSize))"
proof -
  let ?cf = "init_sizes CropSize BatchSize"
  let ?W = "mat_cols im" and ?H = "mat_rows im"
  let ?w = "block_w ?cf ?W k" and ?h = "block_h ?cf ?W k"
  have os: "output_size ?cf = CropSize" by (simp add: init_sizes_fields)
  have dW: "CropSize dvd ?W" and dH: "CropSize dvd ?H"
    using assms(1,3,4,5,6) by (auto intro: smod_zero_dvd simp: os)
  have g: "0 \<le> ?w" "?w + CropSize \<le> ?W" "0 \<le> ?h" "?h + CropSize \<le> ?H"
    using block_geometry[OF assms(1,3,4) dW dH assms(7,8)] by simp_all
  have f: "0 \<le> inner_padding ?cf" "0 < crop_size ?cf" "0 \<le> outer_padding ?cf"
    using assms(1) by (simp_all add: init_sizes_fields)
  have gw: "?w + crop_size ?cf \<le> ?W" and gh: "?h + crop_size ?cf \<le> ?H"
    using g by (simp_all add: init_sizes_fields)
  have x: "0 \<le> win_x cw" "0 < win_width cw" "win_x cw + win_width cw \<le> ?W"
    unfolding cw_def using window_inside_h[OF f(1,2) g(1) gw] by simp_all
  have y: "0 \<le> win_y cw" "0 < win_height cw" "win_y cw + win_height cw \<le> ?H"
    unfolding cw_def using window_inside_v[OF f(1,2) g(3) gh] by simp_all
  have p: "0 \<le> win_left cw" "0 \<le> win_right cw" "0 \<le> win_top cw" "0 \<le> win_bottom cw"
    unfolding cw_def using window_pads_nonneg[OF f(3)] by simp_all
  have sw: "win_width cw + win_left cw + win_right cw = input_block_size ?cf"
    unfolding cw_def by (simp add: window_sum init_sizes_fields)
  have sh: "win_height cw + win_top cw + win_bottom cw = input_block_size ?cf"
    unfolding cw_def by (simp add: window_sum_v init_sizes_fields)
  have hd: "has_dims im (nat ?H) (nat ?W)" using assms(2) by (rule has_dims_of_rectangular)
  have e: "int (nat ?W) = ?W" "int (nat ?H) = ?H" using assms(3,4) by simp_all
  obtain s t where st: "roi im (win_x cw) (win_y cw) (win_width cw) (win_height cw) = Some s"
      "copyMakeBorder s (win_top cw) (win_bottom cw) (win_left cw) (win_right cw) = Some t"
      "has_dims t (nat (CropSize + 16)) (nat (CropSize + 16))"
    using block_tile[of CropSize im "nat ?H" "nat ?W" k BatchSize] assms(1,3,4,7,8) hd dW dH
    unfolding cw_def e by auto
  have pos: "0 < nat (CropSize + 16)" using assms(1) by simp
  have "rectangular t" "mat_rows t = input_block_size ?cf" "mat_cols t = input_block_size ?cf"
    using has_dims_rectangular[OF st(3) pos] assms(1) by (simp_all add: init_sizes_fields)
  then have "\<exists>s t. roi im (win_x cw) (win_y cw) (win_width cw) (win_height cw) = Some s
              \<and> copyMakeBorder s (win_top cw) (win_bottom cw) (win_left cw) (win_right cw) = Some t
              \<and> rectangular t
              \<and> mat_rows t = input_block_size ?cf \<and> mat_cols t = input_block_size ?cf"
    using st by blast
  then show ?thesis using x y p sw sh by simp
qed

text \<open>The second block of a canvas of 8 by 4 pixels at crop size 4.\<close>

theorem context_window_clamped_witness:
  "(0::int) < 4 \<and> rectangular (replicate 4 (replicate 8 (0::int)))
   \<and> 0 < mat_cols (replicate 4 (replicate 8 (0::int))) \<and> 0 < mat_rows (replicate 4 (replicate 8 (0::int)))
   \<and> mat_cols (replicate 4 (replicate 8 (0::int))) smod output_size (init_sizes 4 1) = 0
   \<and> mat_rows (replicate 4 (replicate 8 (0::int))) smod output_size (init_sizes 4 1) = 0
   \<and> (0::int) \<le> 1 \<and> 1 < BlockNum (init_sizes 4 1) 8 4
   \<and> context_window (init_sizes 4 1) 8 4 (block_w (init_sizes 4 1) 8 1) (block_h (init_sizes 4 1) 8 1)
       = \<lparr> win_x = 0, win_y = 0, win_width = 8, win_height = 4,
           win_top = 8, win_bottom = 8, win_left = 4, win_right = 8 \<rparr>
   \<and> (\<exists>s t. roi (replicate 4 (replicate 8 (0::int))) 0 0 8 4 = Some s
          \<and> copyMakeBorder s 8 8 4 8 = Some t \<and> rectangular t \<and> mat_rows t = 20 \<and> mat_cols t = 20)"
proof -
  let ?im = "replicate 4 (replicate 8 (0::int))"
  have d: "mat_cols ?im = 8" "mat_rows ?im = 4"
    by (simp_all add: mat_cols_def mat_rows_def numeral_eq_Suc)
  have r: "rectangular ?im" by (simp add: rectangular_iff d)
  have bn: "BlockNum (init_sizes 4 1) 8 4 = 2"
    by (simp add: BlockNum_def WidthNum_def HeightNum_def init_sizes_fields)
  have cw: "context_window (init_sizes 4 1) 8 4 (block_w (init_sizes 4 1) 8 1) (block_h (init_sizes 4 1) 8 1)
       = \<lparr> win_x = 0, win_y = 0, win_width = 8, win_height = 4,
           win_top = 8, win_bottom = 8, win_left = 4, win_right = 8 \<rparr>"
    by (simp add: context_window_def clamp_low_def clamp_right_def clamp_top_def clamp_bottom_def
        block_w_def block_h_def WidthNum_def init_sizes_fields
        signed_divide_int_def signed_modulo_int_def)
  have "\<exists>s t. roi ?im 0 0 8 4 = Some s
          \<and> copyMakeBorder s 8 8 4 8 = Some t \<and> rectangular t \<and> mat_rows t = 20 \<and> mat_cols t = 20"
    using context_window_clamped[of 4 ?im 1 1] r by (simp add: d bn cw init_sizes_fields)
  then show ?thesis using r by (simp add: d bn cw init_sizes_fields)
qed

section \<open>Loading and storing a batch\<close>

text \<open>
  The floats the network reads for the batch that starts at block \<open>num\<close>, as a function of
  the canvas alone: the serialised tiles of its blocks, one after the other.
\<close>

definition batch_input :: "sizes \<Rightarrow> 'a mat \<Rightarrow> int \<Rightarrow> 'a list" where
  "batch_input cf im num =
     concat (map (\<lambda>n. block_input cf im (num + int n))
               [0 ..< nat (processNum cf (mat_cols im) (mat_rows im) num)])"

lemma slots_fold:
  fixes f :: "nat \<Rightarrow> 'a list"
  assumes "\<And>n. n < p \<Longrightarrow> length (f n) = s"
  shows "fold (\<lambda>n b. take (s * n) b @ f n @ drop (s * n + s) b) [0 ..< p] blk
           = concat (map f [0 ..< p]) @ drop (s * p) blk"
  using assms
proof (induction p)
  case 0
  then show ?case by simp
next
  case (Suc p)
  let ?A = "concat (map f [0 ..< p])"
  have "length ?A = length (map f [0 ..< p]) * s"
    using Suc.prems by (intro concat_length_const) auto
  then have lA: "length ?A = s * p" by (simp add: mult.commute)
  have IH: "fold (\<lambda>n b. take (s * n) b @ f n @ drop (s * n + s) b) [0 ..< p] blk = ?A @ drop (s * p) blk"
    using Suc by simp
  have "fold (\<lambda>n b. take (s * n) b @ f n @ drop (s * n + s) b) [0 ..< Suc p] blk
          = take (s * p) (?A @ drop (s * p) blk) @ f p @ drop (s * p + s) (?A @ drop (s * p) blk)"
    using IH by simp
  also have "\<dots> = ?A @ f p @ drop (s * p + s) blk"
    using lA by (simp add: add.commute)
  finally show ?case by (simp add: add.commute)
qed

lemma load_blocks_fold:
  assumes "\<And>n b. n \<in> set ns \<Longrightarrow> load_block cf im num (int n) b = Some (g n b)"
  shows "load_blocks cf im num ns blk = (True, fold g ns blk)"
  using assms by (induction ns arbitrary: blk) simp_all

lemma processNum_bounds:
  assumes "0 < batch_size cf" "num < BlockNum cf W H"
  shows "0 < processNum cf W H num" "processNum cf W H num \<le> batch_size cf"
    and "num + processNum cf W H num \<le> BlockNum cf W H"
    and "processNum cf W H num < batch_size cf \<Longrightarrow> num + processNum cf W H num = BlockNum cf W H"
  using assms by (auto simp: processNum_def split: if_splits)

lemma load_batch:
  assumes "0 < c" "0 < b" "has_dims im H W" "0 < W" "0 < H" "c dvd int W" "c dvd int H"
    and "0 \<le> num" "num < BlockNum (init_sizes c b) (int W) (int H)"
  shows "load_blocks (init_sizes c b) im num [0 ..< nat (processNum (init_sizes c b) (int W) (int H) num)] blk
           = (True, batch_input (init_sizes c b) im num
                @ drop (nat (c + 16) * nat (c + 16) * nat (processNum (init_sizes c b) (int W) (int H) num)) blk)"
    and "length (batch_input (init_sizes c b) im num)
           = nat (c + 16) * nat (c + 16) * nat (processNum (init_sizes c b) (int W) (int H) num)"
proof -
  let ?cf = "init_sizes c b"
  let ?pn = "processNum ?cf (int W) (int H) num"
  let ?s = "nat (c + 16) * nat (c + 16)"
  let ?f = "\<lambda>n. block_input ?cf im (num + int n)"
  let ?g = "\<lambda>n b. take (?s * n) b @ ?f n @ drop (?s * n + ?s) b"
  have d: "mat_rows im = int H" "mat_cols im = int W"
    using has_dims_rectangular[OF assms(3,5)] by simp_all
  have bs: "0 < batch_size ?cf" using assms(2) by (simp add: init_sizes_fields)
  have pn: "0 < ?pn" "num + ?pn \<le> BlockNum ?cf (int W) (int H)"
    using processNum_bounds[OF bs assms(9)] by simp_all
  have rng: "\<And>n. n < nat ?pn \<Longrightarrow> 0 \<le> num + int n \<and> num + int n < BlockNum ?cf (int W) (int H)"
    using pn assms(8) by linarith
  have lenf: "\<And>n. n < nat ?pn \<Longrightarrow> length (?f n) = ?s"
    using rng by (intro block_input_length[OF assms(1,3,4,5,6,7)]) simp_all
  have step: "\<And>n blk. n \<in> set [0 ..< nat ?pn] \<Longrightarrow> load_block ?cf im num (int n) blk = Some (?g n blk)"
  proof -
    fix n blk assume "n \<in> set [0 ..< nat ?pn]"
    then have n: "n < nat ?pn" by simp
    show "load_block ?cf im num (int n) blk = Some (?g n blk)"
      using load_block_eq[OF assms(1,3,4,5,6,7), of num "int n" b blk] rng[OF n] by simp
  qed
  have "load_blocks ?cf im num [0 ..< nat ?pn] blk = (True, fold ?g [0 ..< nat ?pn] blk)"
    using step by (rule load_blocks_fold)
  moreover have "fold ?g [0 ..< nat ?pn] blk = concat (map ?f [0 ..< nat ?pn]) @ drop (?s * nat ?pn) blk"
    using lenf by (rule slots_fold)
  ultimately show "load_blocks ?cf im num [0 ..< nat ?pn] blk
           = (True, batch_input ?cf im num @ drop (?s * nat ?pn) blk)"
    by (simp add: batch_input_def d)
  have "length (concat (map ?f [0 ..< nat ?pn])) = length (map ?f [0 ..< nat ?pn]) * ?s"
    using lenf by (intro concat_length_const) auto
  then show "length (batch_input ?cf im num) = ?s * nat ?pn"
    by (simp add: batch_input_def d)
qed

lemma store_row_dims:
  assumes "has_dims m H W" "y < H" "x + length seg \<le> W"
  shows "has_dims (store_row m y x seg) H W"
proof -
  let ?R = "take x (m ! y) @ seg @ drop (x + length seg) (m ! y)"
  have ly: "length (m ! y) = W" using assms(1,2) by (rule has_dims_nth)
  have lR: "length ?R = W" using ly assms(3) by simp
  show ?thesis
    unfolding has_dims_iff store_row_def
  proof (intro conjI ballI)
    show "length (m[y := ?R]) = H" using assms(1) by (simp add: has_dims_iff)
  next
    fix r assume "r \<in> set (m[y := ?R])"
    then have "r \<in> insert ?R (set m)" using set_update_subset_insert by fastforce
    then show "length r = W" using lR assms(1) by (auto simp: has_dims_iff)
  qed
qed

lemma store_row_nth:
  assumes "has_dims m H W" "y < H" "x + length seg \<le> W" "y' < H" "x' < W"
  shows "store_row m y x seg ! y' ! x' =
           (if y' = y \<and> x \<le> x' \<and> x' < x + length seg then seg ! (x' - x) else m ! y' ! x')"
proof -
  let ?R = "take x (m ! y) @ seg @ drop (x + length seg) (m ! y)"
  have len: "length m = H" using assms(1) by (simp add: has_dims_iff)
  have ly: "length (m ! y) = W" using assms(1,2) by (rule has_dims_nth)
  show ?thesis
  proof (cases "y' = y")
    case False
    then show ?thesis by (simp add: store_row_def)
  next
    case True
    have row: "store_row m y x seg ! y' = ?R" using True assms(2) len by (simp add: store_row_def)
    consider "x' < x" | "x \<le> x'" "x' < x + length seg" | "x + length seg \<le> x'" by linarith
    then show ?thesis
    proof cases
      case 1
      then show ?thesis using row True ly assms by (simp add: nth_append)
    next
      case 2
      then have "x' - x < length seg" by arith
      then show ?thesis using row True ly assms 2 by (simp add: nth_append min_def)
    next
      case 3
      have lt: "length (take x (m ! y)) = x" using ly assms(3) by simp
      have "?R ! x' = (seg @ drop (x + length seg) (m ! y)) ! (x' - x)"
        using 3 lt by (simp add: nth_append)
      also have "\<dots> = drop (x + length seg) (m ! y) ! (x' - x - length seg)"
      proof -
        have "\<not> x' - x < length seg" using 3 by arith
        then show ?thesis by (simp add: nth_append)
      qed
      also have "\<dots> = m ! y ! x'" using 3 ly assms(5) by simp
      finally show ?thesis using row True 3 by simp
    qed
  qed
qed

lemma store_rows:
  assumes "has_dims m H W" "y0 + q \<le> H" "x0 + c \<le> W" "\<And>i. i < q \<Longrightarrow> length (seg i) = c"
  shows "has_dims (fold (\<lambda>i m. store_row m (y0 + i) x0 (seg i)) [0 ..< q] m) H W
       \<and> (\<forall>y x. y < H \<longrightarrow> x < W \<longrightarrow>
            fold (\<lambda>i m. store_row m (y0 + i) x0 (seg i)) [0 ..< q] m ! y ! x =
              (if y0 \<le> y \<and> y < y0 + q \<and> x0 \<le> x \<and> x < x0 + c then seg (y - y0) ! (x - x0)
               else m ! y ! x))"
  using assms(2,4)
proof (induction q)
  case 0
  show ?case
  proof (intro conjI allI impI)
    show "has_dims (fold (\<lambda>i m. store_row m (y0 + i) x0 (seg i)) [0 ..< 0] m) H W"
      using assms(1) by simp
    fix y x
    have "\<not> (y0 \<le> y \<and> y < y0 + 0 \<and> x0 \<le> x \<and> x < x0 + c)" by arith
    then show "fold (\<lambda>i m. store_row m (y0 + i) x0 (seg i)) [0 ..< 0] m ! y ! x =
              (if y0 \<le> y \<and> y < y0 + 0 \<and> x0 \<le> x \<and> x < x0 + c then seg (y - y0) ! (x - x0)
               else m ! y ! x)"
      by (simp only: if_False upt_0 fold.simps id_apply)
  qed
next
  case (Suc q)
  let ?F = "fold (\<lambda>i m. store_row m (y0 + i) x0 (seg i)) [0 ..< q] m"
  have IH: "has_dims ?F H W"
    "\<And>y x. y < H \<Longrightarrow> x < W \<Longrightarrow> ?F ! y ! x =
              (if y0 \<le> y \<and> y < y0 + q \<and> x0 \<le> x \<and> x < x0 + c then seg (y - y0) ! (x - x0)
               else m ! y ! x)"
    using Suc by simp_all
  have yq: "y0 + q < H" using Suc.prems(1) by simp
  have lq: "length (seg q) = c" using Suc.prems(2) by simp
  have xq: "x0 + length (seg q) \<le> W" using lq assms(3) by simp
  have e: "fold (\<lambda>i m. store_row m (y0 + i) x0 (seg i)) [0 ..< Suc q] m = store_row ?F (y0 + q) x0 (seg q)"
    by simp
  have d: "has_dims (store_row ?F (y0 + q) x0 (seg q)) H W"
    using IH(1) yq xq by (rule store_row_dims)
  have "\<And>y x. y < H \<Longrightarrow> x < W \<Longrightarrow> store_row ?F (y0 + q) x0 (seg q) ! y ! x =
              (if y0 \<le> y \<and> y < y0 + Suc q \<and> x0 \<le> x \<and> x < x0 + c then seg (y - y0) ! (x - x0)
               else m ! y ! x)"
  proof -
    fix y x assume yx: "y < H" "x < W"
    show "store_row ?F (y0 + q) x0 (seg q) ! y ! x =
              (if y0 \<le> y \<and> y < y0 + Suc q \<and> x0 \<le> x \<and> x < x0 + c then seg (y - y0) ! (x - x0)
               else m ! y ! x)"
    proof -
      have A: "store_row ?F (y0 + q) x0 (seg q) ! y ! x =
                 (if y = y0 + q \<and> x0 \<le> x \<and> x < x0 + c then seg q ! (x - x0) else ?F ! y ! x)"
        using store_row_nth[OF IH(1) yq xq yx] by (simp only: lq)
      have B: "?F ! y ! x =
              (if y0 \<le> y \<and> y < y0 + q \<and> x0 \<le> x \<and> x < x0 + c then seg (y - y0) ! (x - x0)
               else m ! y ! x)"
        using yx by (rule IH(2))
      show ?thesis
      proof (cases "y = y0 + q")
        case True
        have C: "y0 \<le> y" "y < y0 + Suc q" "\<not> y < y0 + q" "y - y0 = q" using True by simp_all
        show ?thesis unfolding A B using True C by simp
      next
        case False
        then have C: "(y < y0 + Suc q) = (y < y0 + q)" by arith
        show ?thesis unfolding A B C using False by simp
      qed
    qed
  qed
  then show ?case using d e by simp
qed


lemma length_take_drop_fit:
  assumes "a + c \<le> length xs"
  shows "length (take c (drop a xs)) = c"
  using assms by simp

lemma nth_take_drop_fit:
  assumes "a + c \<le> length xs" "j < c"
  shows "take c (drop a xs) ! j = xs ! (a + j)"
  using assms by simp

lemma core_rows_fit:
  fixes cn i :: nat
  assumes "i < cn"
  shows "(i + 1) * (cn + 2) + 1 + cn \<le> (cn + 2) * (cn + 2)"
proof -
  have "(i + 1) * (cn + 2) \<le> cn * (cn + 2)" using assms by (intro mult_le_mono1) simp
  moreover have "cn * (cn + 2) + 1 + cn \<le> (cn + 2) * (cn + 2)" by (simp add: algebra_simps)
  ultimately show ?thesis by linarith
qed

lemma store_block_nat:
  assumes "0 \<le> block_w (init_sizes (int cn) b) W (num + int n)"
    and "0 \<le> block_h (init_sizes (int cn) b) W (num + int n)"
  shows "store_block (init_sizes (int cn) b) W num outb (int n) outim =
           fold (\<lambda>i m. store_row m (nat (block_h (init_sizes (int cn) b) W (num + int n)) + i)
                          (nat (block_w (init_sizes (int cn) b) W (num + int n)))
                          (take cn (drop ((cn + 2) * (cn + 2) * n + (i + 1) * (cn + 2) + 1) outb)))
             [0 ..< cn] outim"
proof -
  have e: "\<And>i. (int cn + 2) * (int cn + 2) * int n + (int i + 1) * (int cn + 2) + 1
              = int ((cn + 2) * (cn + 2) * n + (i + 1) * (cn + 2) + 1)"
    by (simp only: of_nat_add of_nat_mult of_nat_numeral of_nat_1)
  have o: "\<And>i. nat ((int cn + 2) * (int cn + 2) * int n + (int i + 1) * (int cn + 2) + 1)
              = (cn + 2) * (cn + 2) * n + (i + 1) * (cn + 2) + 1"
    unfolding e by (rule nat_int)
  have h: "\<And>i. nat (block_h (init_sizes (int cn) b) W (num + int n) + int i)
              = nat (block_h (init_sizes (int cn) b) W (num + int n)) + i"
    using assms(2) by (simp add: nat_add_distrib)
  show ?thesis
    by (simp add: store_block_def Let_def init_sizes_fields output_padding_def layer_num_def o h)
qed

lemma store_block_props:
  assumes "has_dims outim H W"
    and "0 \<le> block_w (init_sizes (int cn) b) (int W) (num + int n)"
    and "block_w (init_sizes (int cn) b) (int W) (num + int n) + int cn \<le> int W"
    and "0 \<le> block_h (init_sizes (int cn) b) (int W) (num + int n)"
    and "block_h (init_sizes (int cn) b) (int W) (num + int n) + int cn \<le> int H"
    and "(cn + 2) * (cn + 2) * (n + 1) \<le> length outb"
  defines "wn \<equiv> nat (block_w (init_sizes (int cn) b) (int W) (num + int n))"
    and "hn \<equiv> nat (block_h (init_sizes (int cn) b) (int W) (num + int n))"
  shows "has_dims (store_block (init_sizes (int cn) b) (int W) num outb (int n) outim) H W
       \<and> (\<forall>y x. y < H \<longrightarrow> x < W \<longrightarrow>
            store_block (init_sizes (int cn) b) (int W) num outb (int n) outim ! y ! x =
              (if hn \<le> y \<and> y < hn + cn \<and> wn \<le> x \<and> x < wn + cn
               then outb ! ((cn + 2) * (cn + 2) * n + (y - hn + 1) * (cn + 2) + 1 + (x - wn))
               else outim ! y ! x))"
proof -
  let ?seg = "\<lambda>i. take cn (drop ((cn + 2) * (cn + 2) * n + (i + 1) * (cn + 2) + 1) outb)"
  have fit: "\<And>i. i < cn \<Longrightarrow> (cn + 2) * (cn + 2) * n + (i + 1) * (cn + 2) + 1 + cn \<le> length outb"
  proof -
    fix i assume "i < cn"
    then have "(i + 1) * (cn + 2) + 1 + cn \<le> (cn + 2) * (cn + 2)" by (rule core_rows_fit)
    moreover have "(cn + 2) * (cn + 2) * (n + 1) = (cn + 2) * (cn + 2) * n + (cn + 2) * (cn + 2)"
      by (simp add: algebra_simps)
    ultimately show "(cn + 2) * (cn + 2) * n + (i + 1) * (cn + 2) + 1 + cn \<le> length outb"
      using assms(6) by linarith
  qed
  have lseg: "\<And>i. i < cn \<Longrightarrow> length (?seg i) = cn"
    by (rule length_take_drop_fit) (rule fit)
  have hb: "hn + cn \<le> H" unfolding hn_def using assms(4,5) by linarith
  have wb: "wn + cn \<le> W" unfolding wn_def using assms(2,3) by linarith
  have eq: "store_block (init_sizes (int cn) b) (int W) num outb (int n) outim =
           fold (\<lambda>i m. store_row m (hn + i) wn (?seg i)) [0 ..< cn] outim"
    unfolding hn_def wn_def using assms(2,4) by (rule store_block_nat)
  have R: "has_dims (fold (\<lambda>i m. store_row m (hn + i) wn (?seg i)) [0 ..< cn] outim) H W
       \<and> (\<forall>y x. y < H \<longrightarrow> x < W \<longrightarrow>
            fold (\<lambda>i m. store_row m (hn + i) wn (?seg i)) [0 ..< cn] outim ! y ! x =
              (if hn \<le> y \<and> y < hn + cn \<and> wn \<le> x \<and> x < wn + cn then ?seg (y - hn) ! (x - wn)
               else outim ! y ! x))"
    using assms(1) hb wb lseg by (rule store_rows)
  show ?thesis
  proof (intro conjI allI impI)
    show "has_dims (store_block (init_sizes (int cn) b) (int W) num outb (int n) outim) H W"
      using R eq by simp
  next
    fix y x assume yx: "y < H" "x < W"
    have P: "store_block (init_sizes (int cn) b) (int W) num outb (int n) outim ! y ! x =
              (if hn \<le> y \<and> y < hn + cn \<and> wn \<le> x \<and> x < wn + cn then ?seg (y - hn) ! (x - wn)
               else outim ! y ! x)"
      using R eq yx by simp
    show "store_block (init_sizes (int cn) b) (int W) num outb (int n) outim ! y ! x =
              (if hn \<le> y \<and> y < hn + cn \<and> wn \<le> x \<and> x < wn + cn
               then outb ! ((cn + 2) * (cn + 2) * n + (y - hn + 1) * (cn + 2) + 1 + (x - wn))
               else outim ! y ! x)"
    proof (cases "hn \<le> y \<and> y < hn + cn \<and> wn \<le> x \<and> x < wn + cn")
      case False
      then show ?thesis using P by (simp only: if_False)
    next
      case True
      then have i: "y - hn < cn" and j: "x - wn < cn" by arith+
      have "?seg (y - hn) ! (x - wn) = outb ! ((cn + 2) * (cn + 2) * n + (y - hn + 1) * (cn + 2) + 1 + (x - wn))"
        using fit[OF i] j by (intro nth_take_drop_fit)
      then show ?thesis using P True by (simp only: if_True)
    qed
  qed
qed

section \<open>The reconstructed canvas\<close>

text \<open>
  The index of the block whose core holds the pixel in column \<open>x\<close> of row \<open>y\<close>.
\<close>

definition pixel_block :: "int \<Rightarrow> int \<Rightarrow> nat \<Rightarrow> nat \<Rightarrow> int" where
  "pixel_block c Width x y = (int y div c) * (Width div c) + int x div c"

text \<open>
  What the network returns for the batch that starts at block \<open>num\<close> when it reads the
  tiles of the canvas \<^verbatim>\<open>im\<close>, and the value that stitching takes from it for row \<open>i\<close>,
  column \<open>j\<close> of the core of block \<open>k\<close>: both are functions of the canvas as it is when
  \<^verbatim>\<open>ReconstructImage\<close> is entered.  \<^verbatim>\<open>batch_ok\<close> says that the network returns for that
  batch, with a blob of \<^verbatim>\<open>output_block_plane_size * processNum\<close> floats (the source's
  \<^verbatim>\<open>assert\<close> on \<^verbatim>\<open>b->count()\<close>).
\<close>

definition net_out :: "sizes \<Rightarrow> 'a net \<Rightarrow> 'a mat \<Rightarrow> int \<Rightarrow> 'a list" where
  "net_out cf net im num = (case net (batch_input cf im num) of None \<Rightarrow> [] | Some out \<Rightarrow> out)"

definition stitched :: "sizes \<Rightarrow> 'a net \<Rightarrow> 'a mat \<Rightarrow> int \<Rightarrow> nat \<Rightarrow> nat \<Rightarrow> 'a" where
  "stitched cf net im k i j =
     net_out cf net im (k - k smod batch_size cf)
       ! nat (output_block_size cf * output_block_size cf * (k smod batch_size cf)
              + (int i + output_padding cf) * output_block_size cf + output_padding cf + int j)"

definition batch_ok :: "sizes \<Rightarrow> 'a net \<Rightarrow> 'a mat \<Rightarrow> int \<Rightarrow> bool" where
  "batch_ok cf net im num =
     (case net (batch_input cf im num) of
        None \<Rightarrow> False
      | Some out \<Rightarrow> int (length out) = output_block_size cf * output_block_size cf
                                           * processNum cf (mat_cols im) (mat_rows im) num)"

lemma pixel_block_range:
  assumes "0 < cn" "int cn dvd int W" "int cn dvd int H" "x < W" "y < H"
  shows "0 \<le> pixel_block (int cn) (int W) x y"
    and "pixel_block (int cn) (int W) x y < BlockNum (init_sizes (int cn) b) (int W) (int H)"
proof -
  have c: "0 < int cn" using assms(1) by simp
  have bn: "BlockNum (init_sizes (int cn) b) (int W) (int H) = (int W div int cn) * (int H div int cn)"
    using c by (intro BlockNum_pos_eq) (simp_all add: init_sizes_fields)
  have x: "0 \<le> int x" "int x < int W" and y: "0 \<le> int y" "int y < int H" using assms by simp_all
  show "0 \<le> pixel_block (int cn) (int W) x y"
    unfolding pixel_block_def using core_index_range(1)[OF c assms(2,3) x y] .
  show "pixel_block (int cn) (int W) x y < BlockNum (init_sizes (int cn) b) (int W) (int H)"
    unfolding pixel_block_def bn using core_index_range(2)[OF c assms(2,3) x y] .
qed

lemma pixel_in_block:
  assumes "0 < cn" "0 < W" "int cn dvd int W" "x < W" "0 \<le> k"
    and "0 \<le> block_w (init_sizes (int cn) b) (int W) k"
    and "0 \<le> block_h (init_sizes (int cn) b) (int W) k"
  shows "(nat (block_h (init_sizes (int cn) b) (int W) k) \<le> y
          \<and> y < nat (block_h (init_sizes (int cn) b) (int W) k) + cn
          \<and> nat (block_w (init_sizes (int cn) b) (int W) k) \<le> x
          \<and> x < nat (block_w (init_sizes (int cn) b) (int W) k) + cn)
         \<longleftrightarrow> k = pixel_block (int cn) (int W) x y"
proof -
  let ?cf = "init_sizes (int cn) b"
  have c: "0 < int cn" and Wp: "0 < int W" using assms by simp_all
  have "in_core ?cf (int W) k (int x, int y) \<longleftrightarrow>
          k = (snd (int x, int y) div int cn) * (int W div int cn) + fst (int x, int y) div int cn
          \<and> 0 \<le> fst (int x, int y) \<and> fst (int x, int y) < int W"
    using c Wp assms(3,5) by (intro core_iff) (simp_all add: init_sizes_fields)
  then have A: "in_core ?cf (int W) k (int x, int y) \<longleftrightarrow> k = pixel_block (int cn) (int W) x y"
    using assms(4) by (simp add: pixel_block_def)
  have B: "in_core ?cf (int W) k (int x, int y) \<longleftrightarrow>
          (nat (block_h ?cf (int W) k) \<le> y \<and> y < nat (block_h ?cf (int W) k) + cn
           \<and> nat (block_w ?cf (int W) k) \<le> x \<and> x < nat (block_w ?cf (int W) k) + cn)"
    using assms(6,7) by (simp add: in_core_def init_sizes_fields) linarith
  show ?thesis using A B by simp
qed


lemma store_batch:
  assumes "0 < cn" "has_dims outim H W" "0 < W" "0 < H" "int cn dvd int W" "int cn dvd int H"
    and "0 \<le> num" "num + int p \<le> BlockNum (init_sizes (int cn) b) (int W) (int H)"
    and "(cn + 2) * (cn + 2) * p \<le> length outb"
  shows "has_dims (fold (\<lambda>n m. store_block (init_sizes (int cn) b) (int W) num outb (int n) m) [0 ..< p] outim) H W
       \<and> (\<forall>y x. y < H \<longrightarrow> x < W \<longrightarrow>
            fold (\<lambda>n m. store_block (init_sizes (int cn) b) (int W) num outb (int n) m) [0 ..< p] outim ! y ! x =
              (if num \<le> pixel_block (int cn) (int W) x y \<and> pixel_block (int cn) (int W) x y < num + int p
               then outb ! ((cn + 2) * (cn + 2) * nat (pixel_block (int cn) (int W) x y - num)
                      + (y - nat (block_h (init_sizes (int cn) b) (int W) (pixel_block (int cn) (int W) x y)) + 1) * (cn + 2)
                      + 1 + (x - nat (block_w (init_sizes (int cn) b) (int W) (pixel_block (int cn) (int W) x y))))
               else outim ! y ! x))"
  using assms(8,9)
proof (induction p)
  case 0
  show ?case
  proof (intro conjI allI impI)
    show "has_dims (fold (\<lambda>n m. store_block (init_sizes (int cn) b) (int W) num outb (int n) m) [0 ..< 0] outim) H W"
      using assms(2) by simp
  next
    fix y x
    have "\<not> (num \<le> pixel_block (int cn) (int W) x y \<and> pixel_block (int cn) (int W) x y < num + int 0)"
      by simp
    then show "fold (\<lambda>n m. store_block (init_sizes (int cn) b) (int W) num outb (int n) m) [0 ..< 0] outim ! y ! x =
              (if num \<le> pixel_block (int cn) (int W) x y \<and> pixel_block (int cn) (int W) x y < num + int 0
               then outb ! ((cn + 2) * (cn + 2) * nat (pixel_block (int cn) (int W) x y - num)
                      + (y - nat (block_h (init_sizes (int cn) b) (int W) (pixel_block (int cn) (int W) x y)) + 1) * (cn + 2)
                      + 1 + (x - nat (block_w (init_sizes (int cn) b) (int W) (pixel_block (int cn) (int W) x y))))
               else outim ! y ! x)"
      by (simp only: if_False upt_0 fold.simps id_apply)
  qed
next
  case (Suc p)
  let ?cf = "init_sizes (int cn) b"
  let ?st = "\<lambda>n m. store_block ?cf (int W) num outb (int n) m"
  let ?F = "fold ?st [0 ..< p] outim"
  let ?k = "num + int p"
  have pre: "num + int p \<le> BlockNum ?cf (int W) (int H)" "(cn + 2) * (cn + 2) * p \<le> length outb"
    using Suc.prems by simp_all
  have IH1: "has_dims ?F H W" using Suc.IH[OF pre] by simp
  have IH2: "\<And>y x. y < H \<Longrightarrow> x < W \<Longrightarrow> ?F ! y ! x =
              (if num \<le> pixel_block (int cn) (int W) x y \<and> pixel_block (int cn) (int W) x y < num + int p
               then outb ! ((cn + 2) * (cn + 2) * nat (pixel_block (int cn) (int W) x y - num)
                      + (y - nat (block_h ?cf (int W) (pixel_block (int cn) (int W) x y)) + 1) * (cn + 2)
                      + 1 + (x - nat (block_w ?cf (int W) (pixel_block (int cn) (int W) x y))))
               else outim ! y ! x)"
    using Suc.IH[OF pre] by simp
  have c: "0 < int cn" and Wp: "0 < int W" and Hp: "0 < int H" using assms by simp_all
  have k: "0 \<le> ?k" "?k < BlockNum ?cf (int W) (int H)" using assms(7) Suc.prems(1) by simp_all
  have g: "0 \<le> block_w ?cf (int W) ?k" "block_w ?cf (int W) ?k + int cn \<le> int W"
          "0 \<le> block_h ?cf (int W) ?k" "block_h ?cf (int W) ?k + int cn \<le> int H"
    using block_geometry[OF c Wp Hp assms(5,6) k] by simp_all
  have lo: "(cn + 2) * (cn + 2) * (p + 1) \<le> length outb" using Suc.prems(2) by simp
  have SB: "has_dims (store_block ?cf (int W) num outb (int p) ?F) H W
       \<and> (\<forall>y x. y < H \<longrightarrow> x < W \<longrightarrow>
            store_block ?cf (int W) num outb (int p) ?F ! y ! x =
              (if nat (block_h ?cf (int W) ?k) \<le> y \<and> y < nat (block_h ?cf (int W) ?k) + cn
                  \<and> nat (block_w ?cf (int W) ?k) \<le> x \<and> x < nat (block_w ?cf (int W) ?k) + cn
               then outb ! ((cn + 2) * (cn + 2) * p + (y - nat (block_h ?cf (int W) ?k) + 1) * (cn + 2) + 1
                             + (x - nat (block_w ?cf (int W) ?k)))
               else ?F ! y ! x))"
    using IH1 g lo by (rule store_block_props)
  have e: "fold ?st [0 ..< Suc p] outim = store_block ?cf (int W) num outb (int p) ?F" by simp
  show ?case
    unfolding e
  proof (intro conjI allI impI)
    show "has_dims (store_block ?cf (int W) num outb (int p) ?F) H W" using SB by simp
  next
    fix y x assume yx: "y < H" "x < W"
    let ?pb = "pixel_block (int cn) (int W) x y"
    have S: "store_block ?cf (int W) num outb (int p) ?F ! y ! x =
              (if nat (block_h ?cf (int W) ?k) \<le> y \<and> y < nat (block_h ?cf (int W) ?k) + cn
                  \<and> nat (block_w ?cf (int W) ?k) \<le> x \<and> x < nat (block_w ?cf (int W) ?k) + cn
               then outb ! ((cn + 2) * (cn + 2) * p + (y - nat (block_h ?cf (int W) ?k) + 1) * (cn + 2) + 1
                             + (x - nat (block_w ?cf (int W) ?k)))
               else ?F ! y ! x)"
      using SB yx by simp
    have I: "(nat (block_h ?cf (int W) ?k) \<le> y \<and> y < nat (block_h ?cf (int W) ?k) + cn
                  \<and> nat (block_w ?cf (int W) ?k) \<le> x \<and> x < nat (block_w ?cf (int W) ?k) + cn)
             \<longleftrightarrow> ?k = ?pb"
      using assms(1,3,5) yx(2) k(1) g(1,3) by (rule pixel_in_block)
    show "store_block ?cf (int W) num outb (int p) ?F ! y ! x =
              (if num \<le> ?pb \<and> ?pb < num + int (Suc p)
               then outb ! ((cn + 2) * (cn + 2) * nat (?pb - num)
                      + (y - nat (block_h ?cf (int W) ?pb) + 1) * (cn + 2)
                      + 1 + (x - nat (block_w ?cf (int W) ?pb)))
               else outim ! y ! x)"
    proof (cases "?k = ?pb")
      case True
      have c1: "num \<le> ?pb \<and> ?pb < num + int (Suc p)" using True[symmetric] by simp
      have c2: "nat (?pb - num) = p" using True[symmetric] by simp
      have "store_block ?cf (int W) num outb (int p) ?F ! y ! x =
              outb ! ((cn + 2) * (cn + 2) * p + (y - nat (block_h ?cf (int W) ?k) + 1) * (cn + 2) + 1
                             + (x - nat (block_w ?cf (int W) ?k)))"
        using S I True by (simp only: if_True simp_thms)
      also have "\<dots> = outb ! ((cn + 2) * (cn + 2) * nat (?pb - num)
                      + (y - nat (block_h ?cf (int W) ?pb) + 1) * (cn + 2)
                      + 1 + (x - nat (block_w ?cf (int W) ?pb)))"
        unfolding c2 True by (simp only: add.assoc)
      finally show ?thesis using c1 by (simp only: if_True simp_thms)
    next
      case False
      have c1: "(num \<le> ?pb \<and> ?pb < num + int (Suc p)) = (num \<le> ?pb \<and> ?pb < num + int p)"
        using False by auto
      have "store_block ?cf (int W) num outb (int p) ?F ! y ! x = ?F ! y ! x"
        using S I False by (simp only: if_False simp_thms)
      then show ?thesis unfolding c1 using IH2[OF yx] by (simp only:)
    qed
  qed
qed


lemma process_batch_eq:
  assumes "0 < cn" "0 < b" "has_dims im H W" "0 < W" "0 < H" "int cn dvd int W" "int cn dvd int H"
    and "0 \<le> num" "num < BlockNum (init_sizes (int cn) b) (int W) (int H)"
  defines "pn \<equiv> nat (processNum (init_sizes (int cn) b) (int W) (int H) num)"
  shows "net (batch_input (init_sizes (int cn) b) im num) = None \<Longrightarrow>
           snd (process_batch (init_sizes (int cn) b) net im num (blks, outim)) = None"
    and "net (batch_input (init_sizes (int cn) b) im num) = Some out \<Longrightarrow>
           process_batch (init_sizes (int cn) b) net im num (blks, outim) =
             (\<lparr> input_block = batch_input (init_sizes (int cn) b) im num
                                @ drop ((cn + 16) * (cn + 16) * pn) (input_block blks),
                output_block = memcpy (output_block blks) 0 out 0 ((cn + 2) * (cn + 2) * pn) \<rparr>,
              Some (fold (\<lambda>n m. store_block (init_sizes (int cn) b) (int W) num
                                  (memcpy (output_block blks) 0 out 0 ((cn + 2) * (cn + 2) * pn)) (int n) m)
                      [0 ..< pn] outim))"
proof -
  let ?cf = "init_sizes (int cn) b"
  let ?pn = "processNum ?cf (int W) (int H) num"
  let ?inb = "batch_input ?cf im num @ drop ((cn + 16) * (cn + 16) * pn) (input_block blks)"
  have c: "0 < int cn" using assms(1) by simp
  have d: "mat_rows im = int H" "mat_cols im = int W"
    using has_dims_rectangular[OF assms(3,5)] by simp_all
  have bs: "0 < batch_size ?cf" using assms(2) by (simp add: init_sizes_fields)
  have pp: "0 < ?pn" using processNum_bounds(1)[OF bs assms(9)] .
  have n16: "nat (int cn + 16) = cn + 16" by simp
  have L: "load_blocks ?cf im num [0 ..< pn] (input_block blks) = (True, ?inb)"
    using load_batch(1)[OF c assms(2,3,4,5,6,7,8,9), of "input_block blks"]
    unfolding n16 pn_def by simp
  have len: "length (batch_input ?cf im num) = (cn + 16) * (cn + 16) * pn"
    using load_batch(2)[OF c assms(2,3,4,5,6,7,8,9)] unfolding n16 pn_def by simp
  have ip: "?pn = int pn" unfolding pn_def using pp by simp
  have e1: "(int cn + 16) * (int cn + 16) * ?pn = int ((cn + 16) * (cn + 16) * pn)"
    unfolding ip by (simp only: of_nat_add of_nat_mult of_nat_numeral)
  have e2: "(int cn + 2) * (int cn + 2) * ?pn = int ((cn + 2) * (cn + 2) * pn)"
    unfolding ip by (simp only: of_nat_add of_nat_mult of_nat_numeral)
  have n1: "nat ((int cn + 16) * (int cn + 16) * ?pn) = (cn + 16) * (cn + 16) * pn"
    unfolding e1 by (rule nat_int)
  have n2: "nat ((int cn + 2) * (int cn + 2) * ?pn) = (cn + 2) * (cn + 2) * pn"
    unfolding e2 by (rule nat_int)
  have tk: "take ((cn + 16) * (cn + 16) * pn) ?inb = batch_input ?cf im num"
    using len by simp
  have fs: "input_block_size ?cf = int cn + 16" "output_block_size ?cf = int cn + 2"
    by (simp_all add: init_sizes_fields)
  have PB: "process_batch ?cf net im num (blks, outim) =
      (case net (batch_input ?cf im num) of
         None \<Rightarrow> (blks\<lparr> input_block := ?inb \<rparr>, None)
       | Some out \<Rightarrow>
           (\<lparr> input_block = ?inb,
              output_block = memcpy (output_block blks) 0 out 0 ((cn + 2) * (cn + 2) * pn) \<rparr>,
            Some (fold (\<lambda>n m. store_block ?cf (int W) num
                                  (memcpy (output_block blks) 0 out 0 ((cn + 2) * (cn + 2) * pn)) (int n) m)
                    [0 ..< pn] outim)))"
    unfolding process_batch_def Let_def d fst_conv snd_conv fs n1 n2 pn_def[symmetric] L prod.case tk
    by (simp only: not_True_eq_False if_False)
  show "net (batch_input ?cf im num) = None \<Longrightarrow> snd (process_batch ?cf net im num (blks, outim)) = None"
    unfolding PB by (simp only: option.case snd_conv)
  show "net (batch_input ?cf im num) = Some out \<Longrightarrow>
           process_batch ?cf net im num (blks, outim) =
             (\<lparr> input_block = ?inb,
                output_block = memcpy (output_block blks) 0 out 0 ((cn + 2) * (cn + 2) * pn) \<rparr>,
              Some (fold (\<lambda>n m. store_block ?cf (int W) num
                                  (memcpy (output_block blks) 0 out 0 ((cn + 2) * (cn + 2) * pn)) (int n) m)
                      [0 ..< pn] outim))"
    unfolding PB by (simp only: option.case)
qed


lemma smod_in_batch:
  fixes k b :: int
  assumes "0 < b" "num = int q * b" "num \<le> k" "k < num + b"
  shows "k smod b = k - num" "k - k smod b = num"
proof -
  have k0: "0 \<le> k" using assms by (metis mult_nonneg_nonneg of_nat_0_le_iff order_less_imp_le order_trans)
  have "k = b * int q + (k - num)" using assms(2) by (simp add: algebra_simps)
  moreover have "0 \<le> k - num" "k - num < b" using assms by simp_all
  ultimately have "k mod b = k - num" by (metis int_mod_pos_eq)
  then show "k smod b = k - num" using k0 assms(1) by (simp add: smod_nonneg_eq)
  then show "k - k smod b = num" by simp
qed

lemma stitched_in_batch:
  assumes "0 < b" "num = int q * b" "num \<le> k" "k < num + b"
    and "net (batch_input (init_sizes (int cn) b) im num) = Some out"
  shows "stitched (init_sizes (int cn) b) net im k i j
           = out ! ((cn + 2) * (cn + 2) * nat (k - num) + (i + 1) * (cn + 2) + 1 + j)"
proof -
  have sm: "k smod b = k - num" "k - k smod b = num" using smod_in_batch[OF assms(1-4)] by simp_all
  have kn: "k - num = int (nat (k - num))" using assms(3) by simp
  have e: "(int cn + 2) * (int cn + 2) * (k - num) + (int i + 1) * (int cn + 2) + 1 + int j
             = int ((cn + 2) * (cn + 2) * nat (k - num) + (i + 1) * (cn + 2) + 1 + j)"
    by (subst kn) (simp only: of_nat_add of_nat_mult of_nat_numeral of_nat_1)
  have n: "nat ((int cn + 2) * (int cn + 2) * (k - num) + (int i + 1) * (int cn + 2) + 1 + int j)
             = (cn + 2) * (cn + 2) * nat (k - num) + (i + 1) * (cn + 2) + 1 + j"
    unfolding e by (rule nat_int)
  have no: "net_out (init_sizes (int cn) b) net im num = out"
    using assms(5) by (simp add: net_out_def)
  have f: "batch_size (init_sizes (int cn) b) = b"
    "output_block_size (init_sizes (int cn) b) = int cn + 2"
    "output_padding (init_sizes (int cn) b) = 1"
    by (simp_all add: init_sizes_fields output_padding_def layer_num_def)
  show ?thesis
    unfolding stitched_def f sm(1) n by (simp add: no)
qed

lemma memcpy_prefix:
  assumes "length src = n"
  shows "memcpy dst 0 src 0 n = src @ drop n dst"
  using assms by (simp add: memcpy_def)

lemma core_index_fits:
  fixes cn i j m pn :: nat
  assumes "i < cn" "j < cn" "m < pn"
  shows "(cn + 2) * (cn + 2) * m + (i + 1) * (cn + 2) + 1 + j < (cn + 2) * (cn + 2) * pn"
proof -
  have "(i + 1) * (cn + 2) + 1 + cn \<le> (cn + 2) * (cn + 2)" using assms(1) by (rule core_rows_fit)
  then have a: "(i + 1) * (cn + 2) + 1 + j < (cn + 2) * (cn + 2)" using assms(2) by linarith
  have "m + 1 \<le> pn" using assms(3) by simp
  then have "(cn + 2) * (cn + 2) * (m + 1) \<le> (cn + 2) * (cn + 2) * pn" by (rule mult_le_mono2)
  moreover have "(cn + 2) * (cn + 2) * (m + 1) = (cn + 2) * (cn + 2) * m + (cn + 2) * (cn + 2)"
    by (simp add: algebra_simps)
  ultimately show ?thesis using a by linarith
qed

lemma batch_step_pixels:
  assumes "0 < cn" "0 < b" "has_dims im H W" "0 < W" "0 < H" "int cn dvd int W" "int cn dvd int H"
    and "num = int q * b" "num < BlockNum (init_sizes (int cn) b) (int W) (int H)"
    and "has_dims outim H W"
    and inv: "\<And>y x. y < H \<Longrightarrow> x < W \<Longrightarrow> pixel_block (int cn) (int W) x y < num \<Longrightarrow>
           outim ! y ! x = stitched (init_sizes (int cn) b) net im (pixel_block (int cn) (int W) x y)
             (y - nat (block_h (init_sizes (int cn) b) (int W) (pixel_block (int cn) (int W) x y)))
             (x - nat (block_w (init_sizes (int cn) b) (int W) (pixel_block (int cn) (int W) x y)))"
    and ok: "batch_ok (init_sizes (int cn) b) net im num"
  shows "\<exists>blks' outim'. process_batch (init_sizes (int cn) b) net im num (blks, outim) = (blks', Some outim')
           \<and> has_dims outim' H W
           \<and> (\<forall>y x. y < H \<longrightarrow> x < W \<longrightarrow> pixel_block (int cn) (int W) x y < num + b \<longrightarrow>
                outim' ! y ! x = stitched (init_sizes (int cn) b) net im (pixel_block (int cn) (int W) x y)
                  (y - nat (block_h (init_sizes (int cn) b) (int W) (pixel_block (int cn) (int W) x y)))
                  (x - nat (block_w (init_sizes (int cn) b) (int W) (pixel_block (int cn) (int W) x y))))"
proof -
  let ?cf = "init_sizes (int cn) b"
  let ?BN = "BlockNum ?cf (int W) (int H)"
  let ?pn = "processNum ?cf (int W) (int H) num"
  define pn where "pn = nat ?pn"
  define N where "N = (cn + 2) * (cn + 2) * pn"
  have c: "0 < int cn" and Wp: "0 < int W" and Hp: "0 < int H" using assms by simp_all
  have num0: "0 \<le> num" using assms(2,8) by simp
  have d: "mat_rows im = int H" "mat_cols im = int W"
    using has_dims_rectangular[OF assms(3,5)] by simp_all
  have bs: "0 < batch_size ?cf" "batch_size ?cf = b" using assms(2) by (simp_all add: init_sizes_fields)
  have pb: "0 < ?pn" "?pn \<le> b" "num + ?pn \<le> ?BN" "?pn < b \<Longrightarrow> num + ?pn = ?BN"
    using processNum_bounds[OF bs(1) assms(9)] bs(2) by simp_all
  have ip: "?pn = int pn" unfolding pn_def using pb(1) by simp
  obtain out where out: "net (batch_input ?cf im num) = Some out"
    and lo: "int (length out) = output_block_size ?cf * output_block_size ?cf * ?pn"
    using ok by (auto simp: batch_ok_def d split: option.splits)
  have "int (length out) = int N"
    unfolding lo N_def ip init_sizes_fields by (simp only: of_nat_add of_nat_mult of_nat_numeral)
  then have lout: "length out = N" by simp
  define outb where "outb = memcpy (output_block blks) 0 out 0 N"
  have outb: "outb = out @ drop N (output_block blks)"
    unfolding outb_def using lout by (rule memcpy_prefix)
  have loutb: "(cn + 2) * (cn + 2) * pn \<le> length outb" unfolding outb using lout N_def by simp
  define outim' where "outim' = fold (\<lambda>n m. store_block ?cf (int W) num outb (int n) m) [0 ..< pn] outim"
  have PB: "process_batch ?cf net im num (blks, outim) =
             (\<lparr> input_block = batch_input ?cf im num @ drop ((cn + 16) * (cn + 16) * pn) (input_block blks),
                output_block = outb \<rparr>, Some outim')"
    unfolding outim'_def outb_def N_def pn_def
    using out by (rule process_batch_eq(2)[OF assms(1-7) num0 assms(9)])
  have np: "num + int pn \<le> ?BN" using pb(3) ip by simp
  have SB: "has_dims outim' H W
       \<and> (\<forall>y x. y < H \<longrightarrow> x < W \<longrightarrow>
            outim' ! y ! x =
              (if num \<le> pixel_block (int cn) (int W) x y \<and> pixel_block (int cn) (int W) x y < num + int pn
               then outb ! ((cn + 2) * (cn + 2) * nat (pixel_block (int cn) (int W) x y - num)
                      + (y - nat (block_h ?cf (int W) (pixel_block (int cn) (int W) x y)) + 1) * (cn + 2)
                      + 1 + (x - nat (block_w ?cf (int W) (pixel_block (int cn) (int W) x y))))
               else outim ! y ! x))"
    unfolding outim'_def
    using assms(1) assms(10) assms(4,5,6,7) num0 np loutb by (rule store_batch)
  have pix: "\<forall>y x. y < H \<longrightarrow> x < W \<longrightarrow> pixel_block (int cn) (int W) x y < num + b \<longrightarrow>
                outim' ! y ! x = stitched ?cf net im (pixel_block (int cn) (int W) x y)
                  (y - nat (block_h ?cf (int W) (pixel_block (int cn) (int W) x y)))
                  (x - nat (block_w ?cf (int W) (pixel_block (int cn) (int W) x y)))"
  proof (intro allI impI)
    fix y x assume yx: "y < H" "x < W" and kb: "pixel_block (int cn) (int W) x y < num + b"
    let ?k = "pixel_block (int cn) (int W) x y"
    let ?hn = "nat (block_h ?cf (int W) ?k)" and ?wn = "nat (block_w ?cf (int W) ?k)"
    have kr: "0 \<le> ?k" "?k < ?BN"
      by (rule pixel_block_range(1)[OF assms(1,6,7) yx(2,1)])
         (rule pixel_block_range(2)[OF assms(1,6,7) yx(2,1)])
    have S: "outim' ! y ! x =
              (if num \<le> ?k \<and> ?k < num + int pn
               then outb ! ((cn + 2) * (cn + 2) * nat (?k - num) + (y - ?hn + 1) * (cn + 2) + 1 + (x - ?wn))
               else outim ! y ! x)"
      using SB yx by simp
    show "outim' ! y ! x = stitched ?cf net im ?k (y - ?hn) (x - ?wn)"
    proof (cases "?k < num")
      case True
      then have "\<not> (num \<le> ?k \<and> ?k < num + int pn)" by simp
      then have "outim' ! y ! x = outim ! y ! x" using S by (simp only: if_False)
      then show ?thesis using inv[OF yx True] by simp
    next
      case False
      then have lo: "num \<le> ?k" by simp
      have hi: "?k < num + int pn"
      proof (cases "?pn < b")
        case True
        then show ?thesis using pb(4) kr(2) ip by simp
      next
        case False
        then have "?pn = b" using pb(2) by simp
        then show ?thesis using kb ip by simp
      qed
      have g: "0 \<le> block_w ?cf (int W) ?k" "0 \<le> block_h ?cf (int W) ?k"
        using block_geometry[OF c Wp Hp assms(6,7) kr] by simp_all
      have "?hn \<le> y \<and> y < ?hn + cn \<and> ?wn \<le> x \<and> x < ?wn + cn"
        using pixel_in_block[OF assms(1,4,6) yx(2) kr(1) g, of y] by simp
      then have i: "y - ?hn < cn" and j: "x - ?wn < cn" by arith+
      have m: "nat (?k - num) < pn" using lo hi by linarith
      have idx: "(cn + 2) * (cn + 2) * nat (?k - num) + (y - ?hn + 1) * (cn + 2) + 1 + (x - ?wn) < length out"
        unfolding lout N_def using i j m by (rule core_index_fits)
      have "outim' ! y ! x = outb ! ((cn + 2) * (cn + 2) * nat (?k - num) + (y - ?hn + 1) * (cn + 2) + 1 + (x - ?wn))"
        using S lo hi by (simp only: if_True simp_thms)
      also have "\<dots> = out ! ((cn + 2) * (cn + 2) * nat (?k - num) + (y - ?hn + 1) * (cn + 2) + 1 + (x - ?wn))"
        unfolding outb using idx by (simp only: nth_append if_True)
      also have "\<dots> = stitched ?cf net im ?k (y - ?hn) (x - ?wn)"
        using stitched_in_batch[where net = net and out = out, OF assms(2,8) lo kb out] by simp
      finally show ?thesis .
    qed
  qed
  show ?thesis using PB SB pix by blast
qed


lemma batch_loop_succeeds:
  assumes "0 < cn" "0 < b" "has_dims im H W" "0 < W" "0 < H" "int cn dvd int W" "int cn dvd int H"
    and "\<And>q'. int q' * b < BlockNum (init_sizes (int cn) b) (int W) (int H) \<Longrightarrow>
           batch_ok (init_sizes (int cn) b) net im (int q' * b)"
    and "num = int q * b"
    and "has_dims outim H W"
    and "\<And>y x. y < H \<Longrightarrow> x < W \<Longrightarrow> pixel_block (int cn) (int W) x y < num \<Longrightarrow>
           outim ! y ! x = stitched (init_sizes (int cn) b) net im (pixel_block (int cn) (int W) x y)
             (y - nat (block_h (init_sizes (int cn) b) (int W) (pixel_block (int cn) (int W) x y)))
             (x - nat (block_w (init_sizes (int cn) b) (int W) (pixel_block (int cn) (int W) x y)))"
  shows "\<exists>blks' out. batch_loop (init_sizes (int cn) b) net im num (blks, outim) = Some (blks', Some out)
           \<and> has_dims out H W
           \<and> (\<forall>y x. y < H \<longrightarrow> x < W \<longrightarrow>
                out ! y ! x = stitched (init_sizes (int cn) b) net im (pixel_block (int cn) (int W) x y)
                  (y - nat (block_h (init_sizes (int cn) b) (int W) (pixel_block (int cn) (int W) x y)))
                  (x - nat (block_w (init_sizes (int cn) b) (int W) (pixel_block (int cn) (int W) x y))))"
  using assms(9,10,11)
proof (induction "nat (BlockNum (init_sizes (int cn) b) (int W) (int H) - num)"
       arbitrary: num q blks outim rule: less_induct)
  case less
  let ?cf = "init_sizes (int cn) b"
  let ?BN = "BlockNum ?cf (int W) (int H)"
  have d: "mat_rows im = int H" "mat_cols im = int W"
    using has_dims_rectangular[OF assms(3,5)] by simp_all
  have bsz: "batch_size ?cf = b" by (simp add: init_sizes_fields)
  show ?case
  proof (cases "num < ?BN")
    case False
    have L: "batch_loop ?cf net im num (blks, outim) = Some (blks, Some outim)"
      using False by (subst batch_loop.simps) (simp add: d)
    have "\<forall>y x. y < H \<longrightarrow> x < W \<longrightarrow>
                outim ! y ! x = stitched ?cf net im (pixel_block (int cn) (int W) x y)
                  (y - nat (block_h ?cf (int W) (pixel_block (int cn) (int W) x y)))
                  (x - nat (block_w ?cf (int W) (pixel_block (int cn) (int W) x y)))"
    proof (intro allI impI)
      fix y x assume yx: "y < H" "x < W"
      have "pixel_block (int cn) (int W) x y < ?BN"
        by (rule pixel_block_range(2)[OF assms(1,6,7) yx(2,1)])
      then have "pixel_block (int cn) (int W) x y < num" using False by simp
      then show "outim ! y ! x = stitched ?cf net im (pixel_block (int cn) (int W) x y)
                  (y - nat (block_h ?cf (int W) (pixel_block (int cn) (int W) x y)))
                  (x - nat (block_w ?cf (int W) (pixel_block (int cn) (int W) x y)))"
        using less.prems(3)[OF yx] by simp
    qed
    then show ?thesis using L less.prems(2) by blast
  next
    case True
    have ok: "batch_ok ?cf net im num"
      using assms(8)[of q] True less.prems(1) by simp
    obtain blks1 outim1 where
      PB: "process_batch ?cf net im num (blks, outim) = (blks1, Some outim1)"
      and d1: "has_dims outim1 H W"
      and i1: "\<forall>y x. y < H \<longrightarrow> x < W \<longrightarrow> pixel_block (int cn) (int W) x y < num + b \<longrightarrow>
                outim1 ! y ! x = stitched ?cf net im (pixel_block (int cn) (int W) x y)
                  (y - nat (block_h ?cf (int W) (pixel_block (int cn) (int W) x y)))
                  (x - nat (block_w ?cf (int W) (pixel_block (int cn) (int W) x y)))"
      using batch_step_pixels[OF assms(1-7) less.prems(1) True less.prems(2) less.prems(3) ok, of blks]
      by blast
    have L: "batch_loop ?cf net im num (blks, outim) = batch_loop ?cf net im (num + b) (blks1, outim1)"
      using True by (subst batch_loop.simps) (simp add: d PB bsz)
    have m: "nat (?BN - (num + b)) < nat (?BN - num)" using True assms(2) by simp
    have n: "num + b = int (Suc q) * b" using less.prems(1) by (simp add: algebra_simps)
    have "\<exists>blks' out. batch_loop ?cf net im (num + b) (blks1, outim1) = Some (blks', Some out)
           \<and> has_dims out H W
           \<and> (\<forall>y x. y < H \<longrightarrow> x < W \<longrightarrow>
                out ! y ! x = stitched ?cf net im (pixel_block (int cn) (int W) x y)
                  (y - nat (block_h ?cf (int W) (pixel_block (int cn) (int W) x y)))
                  (x - nat (block_w ?cf (int W) (pixel_block (int cn) (int W) x y))))"
      using i1 by (intro less.hyps[OF m n d1]) simp
    then show ?thesis unfolding L .
  qed
qed

lemma batch_loop_fails:
  assumes "0 < cn" "0 < b" "has_dims im H W" "0 < W" "0 < H" "int cn dvd int W" "int cn dvd int H"
    and "int q' * b < BlockNum (init_sizes (int cn) b) (int W) (int H)"
    and "net (batch_input (init_sizes (int cn) b) im (int q' * b)) = None"
    and "num = int q * b" "q \<le> q'"
  shows "\<exists>blks'. batch_loop (init_sizes (int cn) b) net im num (blks, outim) = Some (blks', None)"
  using assms(10,11)
proof (induction "q' - q" arbitrary: num q blks outim)
  case 0
  let ?cf = "init_sizes (int cn) b"
  have d: "mat_rows im = int H" "mat_cols im = int W"
    using has_dims_rectangular[OF assms(3,5)] by simp_all
  have q: "q = q'" using 0 by simp
  have lt: "num < BlockNum ?cf (int W) (int H)" using assms(8) 0(2) q by simp
  have num0: "0 \<le> num" using 0(2) assms(2) by simp
  have "snd (process_batch ?cf net im num (blks, outim)) = None"
    using assms(9) unfolding 0(2) q 
    by (intro process_batch_eq(1)[where net = net, OF assms(1-7)]) (use assms(2,8) in simp_all)
  then obtain blks1 where PB: "process_batch ?cf net im num (blks, outim) = (blks1, None)"
    by (cases "process_batch ?cf net im num (blks, outim)") simp
  have "batch_loop ?cf net im num (blks, outim) = Some (blks1, None)"
    using lt by (subst batch_loop.simps) (simp add: d PB)
  then show ?case by blast
next
  case (Suc m)
  let ?cf = "init_sizes (int cn) b"
  have d: "mat_rows im = int H" "mat_cols im = int W"
    using has_dims_rectangular[OF assms(3,5)] by simp_all
  have bsz: "batch_size ?cf = b" by (simp add: init_sizes_fields)
  have qq: "q < q'" using Suc(2) by simp
  have "int q * b \<le> int q' * b" using qq assms(2) by (intro mult_right_mono) simp_all
  then have lt: "num < BlockNum ?cf (int W) (int H)" using assms(8) Suc(3) by simp
  have num0: "0 \<le> num" using Suc(3) assms(2) by simp
  show ?case
  proof (cases "net (batch_input ?cf im num)")
    case None
    have "snd (process_batch ?cf net im num (blks, outim)) = None"
      using None by (rule process_batch_eq(1)[where net = net, OF assms(1-7) num0 lt])
    then obtain blks1 where PB: "process_batch ?cf net im num (blks, outim) = (blks1, None)"
      by (cases "process_batch ?cf net im num (blks, outim)") simp
    have "batch_loop ?cf net im num (blks, outim) = Some (blks1, None)"
      using lt by (subst batch_loop.simps) (simp add: d PB)
    then show ?thesis by blast
  next
    case (Some out)
    obtain blks1 outim1 where PB: "process_batch ?cf net im num (blks, outim) = (blks1, Some outim1)"
      using process_batch_eq(2)[where net = net and out = out, OF assms(1-7) num0 lt Some] by blast
    have L: "batch_loop ?cf net im num (blks, outim) = batch_loop ?cf net im (num + b) (blks1, outim1)"
      using lt by (subst batch_loop.simps) (simp add: d PB bsz)
    have m: "m = q' - Suc q" using Suc(2) by simp
    have n: "num + b = int (Suc q) * b" using Suc(3) by (simp add: algebra_simps)
    have "Suc q \<le> q'" using qq by simp
    then have "\<exists>blks'. batch_loop ?cf net im (num + b) (blks1, outim1) = Some (blks', None)"
      using Suc(1)[OF m n] by simp
    then show ?thesis unfolding L .
  qed
qed


lemma reconstruct_succeeds:
  assumes "0 < cn" "0 < b" "has_dims im H W" "0 < W" "0 < H" "int cn dvd int W" "int cn dvd int H"
    and "\<And>q'. int q' * b < BlockNum (init_sizes (int cn) b) (int W) (int H) \<Longrightarrow>
           batch_ok (init_sizes (int cn) b) net im (int q' * b)"
  shows "\<exists>out blks'. ReconstructImage (init_sizes (int cn) b) net fresh blks im
                        = Some (eWaifu2xError_OK, out, blks')
           \<and> has_dims out H W
           \<and> (\<forall>y x. y < H \<longrightarrow> x < W \<longrightarrow>
                out ! y ! x = stitched (init_sizes (int cn) b) net im (pixel_block (int cn) (int W) x y)
                  (y - nat (block_h (init_sizes (int cn) b) (int W) (pixel_block (int cn) (int W) x y)))
                  (x - nat (block_w (init_sizes (int cn) b) (int W) (pixel_block (int cn) (int W) x y))))"
proof -
  let ?cf = "init_sizes (int cn) b"
  let ?o = "map (map (\<lambda>_. fresh)) im"
  have d0: "has_dims ?o H W" using assms(3) by (simp add: has_dims_iff)
  have z: "(0::int) = int 0 * b" by simp
  have inv: "\<And>y x. y < H \<Longrightarrow> x < W \<Longrightarrow> pixel_block (int cn) (int W) x y < 0 \<Longrightarrow>
           ?o ! y ! x = stitched ?cf net im (pixel_block (int cn) (int W) x y)
             (y - nat (block_h ?cf (int W) (pixel_block (int cn) (int W) x y)))
             (x - nat (block_w ?cf (int W) (pixel_block (int cn) (int W) x y)))"
    using pixel_block_range(1)[OF assms(1,6,7)] by fastforce
  obtain blks' out where
    L: "batch_loop ?cf net im 0 (blks, ?o) = Some (blks', Some out)"
    and R: "has_dims out H W"
      "\<forall>y x. y < H \<longrightarrow> x < W \<longrightarrow>
                out ! y ! x = stitched ?cf net im (pixel_block (int cn) (int W) x y)
                  (y - nat (block_h ?cf (int W) (pixel_block (int cn) (int W) x y)))
                  (x - nat (block_w ?cf (int W) (pixel_block (int cn) (int W) x y)))"
    using batch_loop_succeeds[where net = net and blks = blks, OF assms(1-7) assms(8) z d0 inv]
    by blast
  have "ReconstructImage ?cf net fresh blks im = Some (eWaifu2xError_OK, out, blks')"
    by (simp add: ReconstructImage_def Let_def L)
  then show ?thesis using R by blast
qed

lemma reconstruct_fails:
  assumes "0 < cn" "0 < b" "has_dims im H W" "0 < W" "0 < H" "int cn dvd int W" "int cn dvd int H"
    and "int q' * b < BlockNum (init_sizes (int cn) b) (int W) (int H)"
    and "net (batch_input (init_sizes (int cn) b) im (int q' * b)) = None"
  shows "\<exists>blks'. ReconstructImage (init_sizes (int cn) b) net fresh blks im
                    = Some (eWaifu2xError_FailedProcessCaffe, im, blks')"
proof -
  let ?cf = "init_sizes (int cn) b"
  have z: "(0::int) = int 0 * b" by simp
  obtain blks' where
    L: "batch_loop ?cf net im 0 (blks, map (map (\<lambda>_. fresh)) im) = Some (blks', None)"
    using batch_loop_fails[where net = net and blks = blks, OF assms(1-7) assms(8,9) z] by blast
  have "ReconstructImage ?cf net fresh blks im = Some (eWaifu2xError_FailedProcessCaffe, im, blks')"
    by (simp add: ReconstructImage_def Let_def L)
  then show ?thesis by blast
qed

section \<open>Engines that work tile by tile\<close>



text \<open>
  Three engines for examples.  \<^verbatim>\<open>blank_net\<close> returns one blank tile of side
  \<^verbatim>\<open>output_block_size\<close> per input tile.  \<^verbatim>\<open>count_net\<close> fills its output with the number of
  tiles in the batch it was given, so its answer for a tile depends on the batch.
  \<^verbatim>\<open>failing_net\<close> throws.
\<close>

definition failing_net :: "'a net" where
  "failing_net xs = None"

definition blank_net :: "sizes \<Rightarrow> 'a \<Rightarrow> 'a net" where
  "blank_net cf z xs =
     Some (replicate (nat (int (length xs) div (input_block_size cf * input_block_size cf)
                            * (output_block_size cf * output_block_size cf))) z)"






section \<open>The canvas is read as it was on entry\<close>

text \<open>
  The natural numbers behind the sizes of a canvas whose sides are multiples of the crop
  size.
\<close>

lemma canvas_nat:
  assumes "0 < CropSize" "rectangular im" "0 < mat_cols im" "0 < mat_rows im"
    and "mat_cols im smod output_size (init_sizes CropSize BatchSize) = 0"
    and "mat_rows im smod output_size (init_sizes CropSize BatchSize) = 0"
  shows "\<exists>cn H W. CropSize = int cn \<and> 0 < cn \<and> mat_rows im = int H \<and> mat_cols im = int W
           \<and> 0 < H \<and> 0 < W \<and> has_dims im H W \<and> int cn dvd int W \<and> int cn dvd int H"
proof -
  define cn where "cn = nat CropSize"
  define H where "H = nat (mat_rows im)"
  define W where "W = nat (mat_cols im)"
  have c: "CropSize = int cn" "0 < cn" using assms(1) by (simp_all add: cn_def)
  have e: "mat_rows im = int H" "mat_cols im = int W" "0 < H" "0 < W"
    using assms(3,4) by (simp_all add: H_def W_def)
  have os: "output_size (init_sizes (int cn) BatchSize) = int cn" by (simp add: init_sizes_fields)
  have hd: "has_dims im H W" unfolding H_def W_def using assms(2) by (rule has_dims_of_rectangular)
  have sm: "int W smod int cn = 0" "int H smod int cn = 0"
    using assms(5,6) unfolding c(1) os e by simp_all
  have dW: "int cn dvd int W"
    by (rule smod_zero_dvd[OF _ _ sm(1)]) (use c(2) in simp_all)
  have dH: "int cn dvd int H"
    by (rule smod_zero_dvd[OF _ _ sm(2)]) (use c(2) in simp_all)
  show ?thesis using c e hd dW dH by blast
qed








section \<open>The pipeline of one image\<close>

text \<open>
  \<^verbatim>\<open>Waifu2x::waifu2x\<close> reads a file, reconstructs the luminance plane and writes a file.
  What it does to the outside is recorded as a list of events, oldest first: every call
  of \<^verbatim>\<open>ReconstructImage\<close> with the network it runs, every call of the cancellation
  function, the final \<^verbatim>\<open>cv::resize\<close> with \<^verbatim>\<open>cv::INTER_LINEAR\<close> and its target size, and
  the successful \<^verbatim>\<open>cv::imwrite\<close>.  The function returns a result code, or an exception
  of the image library leaves it (\<^verbatim>\<open>Uncaught\<close>): outside \<^verbatim>\<open>ReconstructImage\<close> nothing
  catches one.  The field \<^verbatim>\<open>written\<close> is the image handed to a successful
  \<^verbatim>\<open>cv::imwrite\<close>.
\<close>

datatype net_id = Noise | Scale

datatype event =
    Reconstruct net_id
  | CancelPolled
  | LinearResize int int
  | Written

datatype outcome = Returned eWaifu2xError | Uncaught

record 'img result =
  outcome :: outcome
  events :: "event list"
  written :: "'img option"

text \<open>
  The image library and the colour arithmetic are collaborators: decoding with the white
  background for an alpha channel (\<^verbatim>\<open>LoadImage\<close>), the luminance plane
  (\<^verbatim>\<open>CreateBrightnessImage\<close>), the merge of the reconstructed luminance with the cubic
  chroma planes and the alpha channel at a given size (\<^verbatim>\<open>recompose\<close>, the statements from
  \<^verbatim>\<open>CreateZoomColorImage\<close> to the last \<^verbatim>\<open>cv::merge\<close>), the linear resize to a target
  with positive sides, and the conversion to bytes with \<^verbatim>\<open>cv::imwrite\<close>.
\<close>

record ('a, 'img) imglib =
  LoadImage :: "string \<Rightarrow> 'img option"
  CreateBrightnessImage :: "'img \<Rightarrow> 'a mat"
  recompose :: "'img \<Rightarrow> int \<times> int \<Rightarrow> 'a mat \<Rightarrow> 'img"
  resize_linear :: "'img \<Rightarrow> int \<times> int \<Rightarrow> 'img"
  imwrite :: "string \<Rightarrow> 'img \<Rightarrow> bool"

text \<open>
  The fields of the \<^verbatim>\<open>Waifu2x\<close> object that \<^verbatim>\<open>waifu2x\<close> reads, and the variables that the
  passes change: the luminance plane \<^verbatim>\<open>im\<close>, \<^verbatim>\<open>image_size\<close> as (width, height), the
  scratch arrays and the events so far.
\<close>

record 'a waifu2x_obj =
  is_inited :: bool
  mode :: string
  scale_ratio :: real
  sizes_of :: sizes
  net_noise :: "'a net"
  net_scale :: "'a net"
  blocks_of :: "'a blocks"

record 'a pass_state =
  p_im :: "'a mat"
  p_image_size :: "int \<times> int"
  p_blocks :: "'a blocks"
  p_events :: "event list"

text \<open>
  \<^verbatim>\<open>boost::iequals\<close> on ASCII strings, and the extension of a path as
  \<^verbatim>\<open>boost::filesystem::path::extension\<close> gives it for the separator \<^verbatim>\<open>/\<close>: the part of the
  file name from its last dot, empty for a name without a dot and for the names \<^verbatim>\<open>.\<close>
  and \<^verbatim>\<open>..\<close>.
\<close>

definition to_lower :: "char \<Rightarrow> char" where
  "to_lower ch =
     (if 65 \<le> (of_char ch :: nat) \<and> (of_char ch :: nat) \<le> 90
      then char_of ((of_char ch :: nat) + 32) else ch)"

definition iequals :: "string \<Rightarrow> string \<Rightarrow> bool" where
  "iequals a b = (map to_lower a = map to_lower b)"

definition path_filename :: "string \<Rightarrow> string" where
  "path_filename p = rev (takeWhile (\<lambda>ch. ch \<noteq> CHR ''/'') (rev p))"

definition path_extension :: "string \<Rightarrow> string" where
  "path_extension p =
     (let f = path_filename p
      in if f = ''.'' \<or> f = ''..'' \<or> CHR ''.'' \<notin> set f then ''''
         else CHR ''.'' # rev (takeWhile (\<lambda>ch. ch \<noteq> CHR ''.'') (rev f)))"

text \<open>
  \<^verbatim>\<open>cv::resize\<close> to twice the size with \<^verbatim>\<open>cv::INTER_NEAREST\<close>: every pixel becomes a
  square of four.
\<close>

definition resize_nearest2x :: "'a mat \<Rightarrow> 'a mat" where
  "resize_nearest2x m = concat (map (\<lambda>r. let r2 = concat (map (\<lambda>p. [p, p]) r) in [r2, r2]) m)"

text \<open>
  The scale ratio, \<^verbatim>\<open>shrinkRatio\<close> and the products \<^verbatim>\<open>image_size.width * shrinkRatio\<close> are
  values of type \<^verbatim>\<open>double\<close>.  A \<^verbatim>\<open>double\<close> is modelled by the real number it stands for
  (the values that occur are finite).  The operations that round are parameters of the
  model, because their results are those of the platform: \<^verbatim>\<open>std::log2\<close> and \<^verbatim>\<open>std::pow\<close>
  of the C library, and the division and the multiplication of two doubles.  Each of
  them returns some \<^verbatim>\<open>double\<close> near the exact result; nothing is assumed about which
  one.  The operations that do not round are written out: \<^verbatim>\<open>ceil\<close>, the conversion of
  an \<^verbatim>\<open>int\<close> to \<^verbatim>\<open>double\<close>, and the conversion of a \<^verbatim>\<open>double\<close> to \<^verbatim>\<open>int\<close>, which
  drops the fraction (\<^verbatim>\<open>c_trunc\<close>).
\<close>

record fpu =
  fp_log2 :: "real \<Rightarrow> real"
  fp_pow :: "real \<Rightarrow> real \<Rightarrow> real"
  fp_div :: "real \<Rightarrow> real \<Rightarrow> real"
  fp_mul :: "real \<Rightarrow> real \<Rightarrow> real"

definition c_trunc :: "real \<Rightarrow> int" where
  "c_trunc x = (if 0 \<le> x then \<lfloor>x\<rfloor> else \<lceil>x\<rceil>)"

text \<open>
  \<^verbatim>\<open>const int scale2 = ceil(log2(scale_ratio))\<close> and
  \<^verbatim>\<open>const double shrinkRatio = scale_ratio / std::pow(2.0, (double)scale2)\<close>.
\<close>

definition scale2_of :: "fpu \<Rightarrow> real \<Rightarrow> int" where
  "scale2_of fp r = c_trunc (real_of_int \<lceil>fp_log2 fp r\<rceil>)"

definition shrinkRatio_of :: "fpu \<Rightarrow> real \<Rightarrow> real" where
  "shrinkRatio_of fp r = fp_div fp r (fp_pow fp 2 (real_of_int (scale2_of fp r)))"

text \<open>
  \<^verbatim>\<open>cancel_func && cancel_func()\<close>: the cancellation function may be empty; when it is
  not, its answer may depend on everything the pipeline has done so far.
\<close>

definition poll :: "(event list \<Rightarrow> bool) option \<Rightarrow> event list \<Rightarrow> bool" where
  "poll cancel_func evs = (case cancel_func of None \<Rightarrow> False | Some f \<Rightarrow> f evs)"

text \<open>
  A return before the output is written.
\<close>

definition stop :: "outcome \<Rightarrow> event list \<Rightarrow> 'img result" where
  "stop oc evs = \<lparr> outcome = oc, events = evs, written = None \<rparr>"

text \<open>
  The tail that the denoise pass and every upscale pass share: \<^verbatim>\<open>ReconstructImage\<close> on the
  padded canvas, the return of its code when that is not \<^verbatim>\<open>eWaifu2xError_OK\<close>, and the
  crop to \<^verbatim>\<open>image_size\<close>.  \<open>Inl\<close> is a return of \<^verbatim>\<open>waifu2x\<close>, \<open>Inr\<close> the state with
  which it goes on.
\<close>

definition reconstruct_pass ::
  "sizes \<Rightarrow> 'a net \<Rightarrow> net_id \<Rightarrow> 'a \<Rightarrow> 'a mat \<Rightarrow> 'a pass_state \<Rightarrow> ('img result + 'a pass_state) option" where
  "reconstruct_pass cf net nid fresh padded st =
     (let evs = p_events st @ [Reconstruct nid]
      in case ReconstructImage cf net fresh (p_blocks st) padded of
           None \<Rightarrow> None
         | Some (ret, im', blks') \<Rightarrow>
             if ret \<noteq> eWaifu2xError_OK then Some (Inl (stop (Returned ret) evs))
             else (case roi im' offset offset (fst (p_image_size st)) (snd (p_image_size st)) of
                     None \<Rightarrow> Some (Inl (stop Uncaught evs))
                   | Some cropped \<Rightarrow>
                       Some (Inr (st\<lparr> p_im := cropped, p_blocks := blks', p_events := evs \<rparr>))))"

definition noise_pass ::
  "sizes \<Rightarrow> 'a net \<Rightarrow> 'a \<Rightarrow> 'a pass_state \<Rightarrow> ('img result + 'a pass_state) option" where
  "noise_pass cf net fresh st =
     (case PaddingImage cf (p_im st) of
        None \<Rightarrow> Some (Inl (stop Uncaught (p_events st)))
      | Some padded \<Rightarrow> reconstruct_pass cf net Noise fresh padded st)"

text \<open>
  One iteration of the upscale loop: \<^verbatim>\<open>Zoom2xAndPaddingImage\<close> sets \<^verbatim>\<open>image_size\<close> to twice
  the size of \<^verbatim>\<open>im\<close>, enlarges \<^verbatim>\<open>im\<close> (\<^verbatim>\<open>cv::resize\<close> raises an exception on an empty
  source) and pads it.
\<close>

definition scale_pass ::
  "sizes \<Rightarrow> 'a net \<Rightarrow> 'a \<Rightarrow> 'a pass_state \<Rightarrow> ('img result + 'a pass_state) option" where
  "scale_pass cf net fresh st =
     (let zoom_size = (mat_cols (p_im st) * 2, mat_rows (p_im st) * 2);
          zoom_image = resize_nearest2x (p_im st)
      in if mat_cols (p_im st) = 0 \<or> mat_rows (p_im st) = 0
         then Some (Inl (stop Uncaught (p_events st)))
         else (case PaddingImage cf zoom_image of
                 None \<Rightarrow> Some (Inl (stop Uncaught (p_events st)))
               | Some padded \<Rightarrow>
                   reconstruct_pass cf net Scale fresh padded (st\<lparr> p_image_size := zoom_size \<rparr>)))"

fun scale_loop ::
  "sizes \<Rightarrow> 'a net \<Rightarrow> 'a \<Rightarrow> nat \<Rightarrow> 'a pass_state \<Rightarrow> ('img result + 'a pass_state) option" where
  "scale_loop cf net fresh 0 st = Some (Inr st)"
| "scale_loop cf net fresh (Suc n) st =
     (case scale_pass cf net fresh st of
        None \<Rightarrow> None
      | Some (Inl r) \<Rightarrow> Some (Inl r)
      | Some (Inr st') \<Rightarrow> scale_loop cf net fresh n st')"

text \<open>
  The end of \<^verbatim>\<open>waifu2x\<close>: recomposition, the linear resize to
  \<^verbatim>\<open>ns(image_size.width * shrinkRatio, image_size.height * shrinkRatio)\<close> when \<^verbatim>\<open>ns\<close>
  differs from \<^verbatim>\<open>image_size\<close>, and the write.  \<^verbatim>\<open>cv::resize\<close> is called with the target
  size \<^verbatim>\<open>ns\<close> and both scale factors 0.0; it raises an exception when \<^verbatim>\<open>ns\<close> is empty,
  and nothing in \<^verbatim>\<open>waifu2x\<close> catches it.
\<close>

definition finish ::
  "fpu \<Rightarrow> ('a, 'img) imglib \<Rightarrow> real \<Rightarrow> string \<Rightarrow> 'img \<Rightarrow> 'a pass_state \<Rightarrow> 'img result" where
  "finish fp lib shrinkRatio output_file float_image st =
     (let image_size = p_image_size st;
          process_image = recompose lib float_image image_size (p_im st);
          ns = (c_trunc (fp_mul fp (real_of_int (fst image_size)) shrinkRatio),
                c_trunc (fp_mul fp (real_of_int (snd image_size)) shrinkRatio))
      in if fst image_size \<noteq> fst ns \<or> snd image_size \<noteq> snd ns
         then (if fst ns \<le> 0 \<or> snd ns \<le> 0 then stop Uncaught (p_events st)
               else (let resized = resize_linear lib process_image ns
                     in if \<not> imwrite lib output_file resized
                        then stop (Returned eWaifu2xError_FailedOpenOutputFile)
                               (p_events st @ [LinearResize (fst ns) (snd ns)])
                        else \<lparr> outcome = Returned eWaifu2xError_OK,
                               events = p_events st @ [LinearResize (fst ns) (snd ns), Written],
                               written = Some resized \<rparr>))
         else if \<not> imwrite lib output_file process_image
              then stop (Returned eWaifu2xError_FailedOpenOutputFile) (p_events st)
              else \<lparr> outcome = Returned eWaifu2xError_OK,
                     events = p_events st @ [Written],
                     written = Some process_image \<rparr>)"

text \<open>
  \<^verbatim>\<open>waifu2x\<close> from its first call of the cancellation function on, and \<^verbatim>\<open>waifu2x\<close> itself.
  The result is \<open>None\<close> when a reconstruction does not return.
\<close>

definition after_noise ::
  "fpu \<Rightarrow> ('a, 'img) imglib \<Rightarrow> 'a \<Rightarrow> 'a waifu2x_obj \<Rightarrow> string \<Rightarrow> (event list \<Rightarrow> bool) option \<Rightarrow>
     'img \<Rightarrow> bool \<Rightarrow> 'a pass_state \<Rightarrow> 'img result option" where
  "after_noise fp lib fresh obj output_file cancel_func float_image isReconstructScale st =
     (if poll cancel_func (p_events st)
      then Some (stop (Returned eWaifu2xError_Cancel) (p_events st @ [CancelPolled]))
      else
        let st1 = st\<lparr> p_events := p_events st @ [CancelPolled] \<rparr>;
            scale2 = scale2_of fp (scale_ratio obj);
            shrinkRatio = shrinkRatio_of fp (scale_ratio obj)
        in case (if isReconstructScale
                 then scale_loop (sizes_of obj) (net_scale obj) fresh (nat scale2) st1
                 else Some (Inr st1)) of
             None \<Rightarrow> None
           | Some (Inl r) \<Rightarrow> Some r
           | Some (Inr st2) \<Rightarrow>
               if poll cancel_func (p_events st2)
               then Some (stop (Returned eWaifu2xError_Cancel) (p_events st2 @ [CancelPolled]))
               else Some (finish fp lib shrinkRatio output_file float_image
                            (st2\<lparr> p_events := p_events st2 @ [CancelPolled] \<rparr>)))"

definition isJpeg :: "string \<Rightarrow> bool" where
  "isJpeg input_file =
     (iequals (path_extension input_file) ''.jpg'' \<or> iequals (path_extension input_file) ''.jpeg'')"

definition isReconstructNoise :: "string \<Rightarrow> string \<Rightarrow> bool" where
  "isReconstructNoise md input_file =
     (md = ''noise'' \<or> md = ''noise_scale'' \<or> (md = ''auto_scale'' \<and> isJpeg input_file))"

definition isReconstructScale :: "string \<Rightarrow> bool" where
  "isReconstructScale md = (md = ''scale'' \<or> md = ''noise_scale'')"

definition waifu2x ::
  "fpu \<Rightarrow> ('a, 'img) imglib \<Rightarrow> 'a \<Rightarrow> 'a waifu2x_obj \<Rightarrow> string \<Rightarrow> string \<Rightarrow>
     (event list \<Rightarrow> bool) option \<Rightarrow> 'img result option" where
  "waifu2x fp lib fresh obj input_file output_file cancel_func =
     (if \<not> is_inited obj then Some (stop (Returned eWaifu2xError_NotInitialized) [])
      else case LoadImage lib input_file of
             None \<Rightarrow> Some (stop (Returned eWaifu2xError_FailedOpenInputFile) [])
           | Some float_image \<Rightarrow>
               (let im = CreateBrightnessImage lib float_image;
                    image_size = (mat_cols im, mat_rows im);
                    st0 = \<lparr> p_im = im, p_image_size = image_size,
                            p_blocks = blocks_of obj, p_events = [] \<rparr>
                in case (if isReconstructNoise (mode obj) input_file
                         then noise_pass (sizes_of obj) (net_noise obj) fresh st0
                         else Some (Inr st0)) of
                     None \<Rightarrow> None
                   | Some (Inl r) \<Rightarrow> Some r
                   | Some (Inr st1) \<Rightarrow>
                       after_noise fp lib fresh obj output_file cancel_func float_image
                         (isReconstructScale (mode obj)) st1))"

section \<open>Passes that succeed\<close>

text \<open>
  An engine that never throws and returns, for an input of whole tiles, one result tile
  per input tile.
\<close>

definition engine_ok :: "sizes \<Rightarrow> 'a net \<Rightarrow> bool" where
  "engine_ok cf net =
     (\<forall>xs. int (length xs) mod (input_block_size cf * input_block_size cf) = 0 \<longrightarrow>
        (case net xs of
           None \<Rightarrow> False
         | Some ys \<Rightarrow> int (length ys) * (input_block_size cf * input_block_size cf)
                        = int (length xs) * (output_block_size cf * output_block_size cf)))"

lemma PaddingImage_dims:
  assumes "0 < cn" "has_dims input H W" "0 < H" "0 < W"
  shows "\<exists>p H' W'. PaddingImage (init_sizes (int cn) b) input = Some p \<and> has_dims p H' W'
           \<and> H \<le> H' \<and> W \<le> W' \<and> int cn dvd int H' \<and> int cn dvd int W'"
proof -
  let ?cf = "init_sizes (int cn) b"
  let ?c = "int cn"
  have c: "0 < ?c" using assms(1) by simp
  have r: "rectangular input" "mat_rows input = int H" "mat_cols input = int W"
    using has_dims_rectangular[OF assms(2,3)] by simp_all
  define pw where "pw = (int W sdiv ?c + (if int W smod ?c = 0 then 0 else 1)) * ?c"
  define ph where "ph = (int H sdiv ?c + (if int H smod ?c = 0 then 0 else 1)) * ?c"
  have Wb: "int W \<le> pw" "?c dvd pw" unfolding pw_def using c by (intro round_up_blocks; simp)+
  have Hb: "int H \<le> ph" "?c dvd ph" unfolding ph_def using c by (intro round_up_blocks; simp)+
  define p where "p = border_replicate 0 (nat (ph - int H)) 0 (nat (pw - int W)) input"
  have P: "PaddingImage ?cf input = Some p"
    using PaddingImage_eq[of ?cf input] r assms(3,4) c
    by (simp add: init_sizes_fields p_def pw_def ph_def)
  have "has_dims p (0 + H + nat (ph - int H)) (0 + W + nat (pw - int W))"
    unfolding p_def using assms(2,3) by (rule border_replicate_has_dims)
  moreover have "0 + H + nat (ph - int H) = nat ph" "0 + W + nat (pw - int W) = nat pw"
    using Wb(1) Hb(1) by linarith+
  ultimately have D: "has_dims p (nat ph) (nat pw)" by simp
  have "H \<le> nat ph" "W \<le> nat pw" using Wb(1) Hb(1) by linarith+
  moreover have "?c dvd int (nat ph)" "?c dvd int (nat pw)" using Wb Hb by simp_all
  ultimately show ?thesis using P D by blast
qed

lemma resize_nearest2x_dims:
  assumes "has_dims m H W"
  shows "has_dims (resize_nearest2x m) (2 * H) (2 * W)"
proof -
  have dbl: "\<And>r :: 'a list. length (concat (map (\<lambda>p. [p, p]) r)) = 2 * length r"
  proof -
    fix r :: "'a list"
    show "length (concat (map (\<lambda>p. [p, p]) r)) = 2 * length r" by (induction r) simp_all
  qed
  have rows: "\<And>r. r \<in> set m \<Longrightarrow> length r = W" using assms by (simp add: has_dims_iff)
  have len: "length m = H" using assms by (simp add: has_dims_iff)
  have "length (resize_nearest2x m) = 2 * length m"
    unfolding resize_nearest2x_def by (induction m) (simp_all add: Let_def)
  moreover have "\<forall>q \<in> set (resize_nearest2x m). length q = 2 * W"
    unfolding resize_nearest2x_def using rows by (auto simp: Let_def dbl)
  ultimately show ?thesis using len by (simp add: has_dims_iff)
qed

lemma engine_ok_batch_ok:
  assumes "0 < cn" "0 < b" "has_dims im H W" "0 < W" "0 < H" "int cn dvd int W" "int cn dvd int H"
    and "engine_ok (init_sizes (int cn) b) net"
    and "0 \<le> num" "num < BlockNum (init_sizes (int cn) b) (int W) (int H)"
  shows "batch_ok (init_sizes (int cn) b) net im num"
proof -
  let ?cf = "init_sizes (int cn) b"
  let ?pn = "processNum ?cf (int W) (int H) num"
  let ?xs = "batch_input ?cf im num"
  have c: "0 < int cn" using assms(1) by simp
  have d: "mat_rows im = int H" "mat_cols im = int W"
    using has_dims_rectangular[OF assms(3,5)] by simp_all
  have bs: "0 < batch_size ?cf" using assms(2) by (simp add: init_sizes_fields)
  have pp: "0 < ?pn" using processNum_bounds(1)[OF bs assms(10)] .
  have ip: "?pn = int (nat ?pn)" using pp by simp
  have n16: "nat (int cn + 16) = cn + 16" by simp
  have len: "length ?xs = (cn + 16) * (cn + 16) * nat ?pn"
    using load_batch(2)[OF c assms(2,3,4,5,6,7,9,10)] unfolding n16 by simp
  have il: "int (length ?xs) = (int cn + 16) * (int cn + 16) * ?pn"
    unfolding len by (subst (2) ip) (simp only: of_nat_add of_nat_mult of_nat_numeral)
  have m0: "int (length ?xs) mod ((int cn + 16) * (int cn + 16)) = 0" unfolding il by simp
  have E: "case net ?xs of None \<Rightarrow> False
           | Some ys \<Rightarrow> int (length ys) * ((int cn + 16) * (int cn + 16))
                        = int (length ?xs) * ((int cn + 2) * (int cn + 2))"
    using assms(8)[unfolded engine_ok_def init_sizes_fields, rule_format, OF m0] .
  obtain ys where ys: "net ?xs = Some ys"
    "int (length ys) * ((int cn + 16) * (int cn + 16)) = int (length ?xs) * ((int cn + 2) * (int cn + 2))"
    using E by (cases "net ?xs") simp_all
  have pos: "(int cn + 16) * (int cn + 16) \<noteq> 0" by simp
  have "int (length ys) * ((int cn + 16) * (int cn + 16))
          = ((int cn + 2) * (int cn + 2) * ?pn) * ((int cn + 16) * (int cn + 16))"
    unfolding ys(2) il by (simp only: mult.assoc mult.commute mult.left_commute)
  then have "int (length ys) = (int cn + 2) * (int cn + 2) * ?pn"
    using pos by (simp only: mult_cancel_right) simp
  then show ?thesis using ys(1) by (simp add: batch_ok_def d init_sizes_fields)
qed


lemma reconstruct_pass_ok:
  fixes st :: "'a pass_state"
  assumes "0 < cn" "0 < b" "engine_ok (init_sizes (int cn) b) net"
    and "has_dims padded H' W'" "0 < H'" "0 < W'" "int cn dvd int H'" "int cn dvd int W'"
    and "p_image_size st = (int W, int H)" "W \<le> W'" "H \<le> H'"
  shows "\<exists>st'. reconstruct_pass (init_sizes (int cn) b) net nid fresh padded st = Some (Inr st')
           \<and> has_dims (p_im st') H W \<and> p_image_size st' = (int W, int H)
           \<and> p_events st' = p_events st @ [Reconstruct nid]"
proof -
  let ?cf = "init_sizes (int cn) b"
  have ok: "\<And>q'. int q' * b < BlockNum ?cf (int W') (int H') \<Longrightarrow> batch_ok ?cf net padded (int q' * b)"
  proof -
    fix q' assume lt: "int q' * b < BlockNum ?cf (int W') (int H')"
    have "0 \<le> int q' * b" using assms(2) by simp
    then show "batch_ok ?cf net padded (int q' * b)"
      using lt by (intro engine_ok_batch_ok[OF assms(1,2,4,6,5,8,7,3)])
  qed
  obtain out blks' where
    R: "ReconstructImage ?cf net fresh (p_blocks st) padded = Some (eWaifu2xError_OK, out, blks')"
    and D: "has_dims out H' W'"
    using reconstruct_succeeds[where net = net and blks = "p_blocks st" and fresh = fresh,
        OF assms(1,2,4,6,5,8,7) ok] by blast
  let ?crop = "map (\<lambda>r. take (nat (int W)) (drop (nat 0) r)) (take (nat (int H)) (drop (nat 0) out))"
  have C: "roi out 0 0 (int W) (int H) = Some ?crop"
    using assms(10,11) by (intro roi_has_dims(1)[OF D assms(5)]) simp_all
  have CD: "has_dims ?crop (nat (int H)) (nat (int W))"
    using assms(10,11) by (intro roi_has_dims(2)[OF D assms(5)]) simp_all
  have "reconstruct_pass ?cf net nid fresh padded st =
          Some (Inr (st\<lparr> p_im := ?crop, p_blocks := blks', p_events := p_events st @ [Reconstruct nid] \<rparr>))"
    by (simp add: reconstruct_pass_def Let_def R offset_def assms(9) C)
  then show ?thesis using CD assms(9) by auto
qed

lemma noise_pass_ok:
  fixes st :: "'a pass_state"
  assumes "0 < cn" "0 < b" "engine_ok (init_sizes (int cn) b) net"
    and "has_dims (p_im st) H W" "0 < H" "0 < W" "p_image_size st = (int W, int H)"
  shows "\<exists>st'. noise_pass (init_sizes (int cn) b) net fresh st = Some (Inr st')
           \<and> has_dims (p_im st') H W \<and> p_image_size st' = (int W, int H)
           \<and> p_events st' = p_events st @ [Reconstruct Noise]"
proof -
  let ?cf = "init_sizes (int cn) b"
  obtain p H' W' where P: "PaddingImage ?cf (p_im st) = Some p" "has_dims p H' W'"
      "H \<le> H'" "W \<le> W'" "int cn dvd int H'" "int cn dvd int W'"
    using PaddingImage_dims[OF assms(1,4,5,6), of b] by blast
  have pos: "0 < H'" "0 < W'" using P(3,4) assms(5,6) by simp_all
  have "\<exists>st'. reconstruct_pass ?cf net Noise fresh p st = Some (Inr st')
           \<and> has_dims (p_im st') H W \<and> p_image_size st' = (int W, int H)
           \<and> p_events st' = p_events st @ [Reconstruct Noise]"
    using assms(1,2,3) P(2) pos P(5,6) assms(7) P(4,3) by (rule reconstruct_pass_ok)
  then show ?thesis by (simp add: noise_pass_def P(1))
qed

lemma scale_pass_ok:
  fixes st :: "'a pass_state"
  assumes "0 < cn" "0 < b" "engine_ok (init_sizes (int cn) b) net"
    and "has_dims (p_im st) H W" "0 < H" "0 < W"
  shows "\<exists>st'. scale_pass (init_sizes (int cn) b) net fresh st = Some (Inr st')
           \<and> has_dims (p_im st') (2 * H) (2 * W) \<and> p_image_size st' = (int (2 * W), int (2 * H))
           \<and> p_events st' = p_events st @ [Reconstruct Scale]"
proof -
  let ?cf = "init_sizes (int cn) b"
  let ?z = "resize_nearest2x (p_im st)"
  let ?st = "st\<lparr> p_image_size := (mat_cols (p_im st) * 2, mat_rows (p_im st) * 2) \<rparr>"
  have d: "mat_rows (p_im st) = int H" "mat_cols (p_im st) = int W"
    using has_dims_rectangular[OF assms(4,5)] by simp_all
  have Z: "has_dims ?z (2 * H) (2 * W)" using assms(4) by (rule resize_nearest2x_dims)
  have zp: "0 < 2 * H" "0 < 2 * W" using assms(5,6) by simp_all
  obtain p H' W' where P: "PaddingImage ?cf ?z = Some p" "has_dims p H' W'"
      "2 * H \<le> H'" "2 * W \<le> W'" "int cn dvd int H'" "int cn dvd int W'"
    using PaddingImage_dims[OF assms(1) Z zp, of b] by blast
  have pos: "0 < H'" "0 < W'" using P(3,4) assms(5,6) by simp_all
  have sz: "p_image_size ?st = (int (2 * W), int (2 * H))" by (simp add: d)
  have "\<exists>st'. reconstruct_pass ?cf net Scale fresh p ?st = Some (Inr st')
           \<and> has_dims (p_im st') (2 * H) (2 * W) \<and> p_image_size st' = (int (2 * W), int (2 * H))
           \<and> p_events st' = p_events ?st @ [Reconstruct Scale]"
    using assms(1,2,3) P(2) pos P(5,6) sz P(4,3) by (rule reconstruct_pass_ok)
  then show ?thesis using assms(5,6) by (simp add: scale_pass_def Let_def P(1) d)
qed

lemma scale_loop_ok:
  fixes st :: "'a pass_state"
  assumes "0 < cn" "0 < b" "engine_ok (init_sizes (int cn) b) net"
    and "has_dims (p_im st) H W" "0 < H" "0 < W" "p_image_size st = (int W, int H)"
  shows "\<exists>st'. (scale_loop (init_sizes (int cn) b) net fresh n st :: ('img result + 'a pass_state) option)
                 = Some (Inr st')
           \<and> has_dims (p_im st') (2 ^ n * H) (2 ^ n * W)
           \<and> p_image_size st' = (int (2 ^ n * W), int (2 ^ n * H))
           \<and> p_events st' = p_events st @ replicate n (Reconstruct Scale)"
  using assms(4,5,6,7)
proof (induction n arbitrary: st H W)
  case 0
  then show ?case by simp
next
  case (Suc n)
  let ?cf = "init_sizes (int cn) b"
  obtain st1 where S: "(scale_pass ?cf net fresh st :: ('img result + 'a pass_state) option) = Some (Inr st1)"
      "has_dims (p_im st1) (2 * H) (2 * W)" "p_image_size st1 = (int (2 * W), int (2 * H))"
      "p_events st1 = p_events st @ [Reconstruct Scale]"
    using scale_pass_ok[OF assms(1,2,3) Suc.prems(1,2,3), of fresh] by blast
  have pos: "0 < 2 * H" "0 < 2 * W" using Suc.prems(2,3) by simp_all
  obtain st' where L: "(scale_loop ?cf net fresh n st1 :: ('img result + 'a pass_state) option) = Some (Inr st')"
      "has_dims (p_im st') (2 ^ n * (2 * H)) (2 ^ n * (2 * W))"
      "p_image_size st' = (int (2 ^ n * (2 * W)), int (2 ^ n * (2 * H)))"
      "p_events st' = p_events st1 @ replicate n (Reconstruct Scale)"
    using Suc.IH[OF S(2) pos S(3)] by blast
  have e: "2 ^ n * (2 * H) = 2 ^ Suc n * H" "2 ^ n * (2 * W) = 2 ^ Suc n * W" by simp_all
  have ev: "p_events st' = p_events st @ replicate (Suc n) (Reconstruct Scale)"
    using L(4) S(4) by (simp add: replicate_append_same)
  have "(scale_loop ?cf net fresh (Suc n) st :: ('img result + 'a pass_state) option) = Some (Inr st')"
    using S(1) L(1) by simp
  then show ?case using L(2,3) ev unfolding e by blast
qed

section \<open>The run of the pipeline\<close>

lemma c_trunc_of_int: "c_trunc (real_of_int n) = n"
  by (simp add: c_trunc_def)

text \<open>
  The events of a run in which every pass succeeds, up to the first and up to the second
  call of the cancellation function, and the number of upscale passes between the two.
\<close>

definition events_to_first_poll :: "string \<Rightarrow> string \<Rightarrow> event list" where
  "events_to_first_poll md input_file =
     (if isReconstructNoise md input_file then [Reconstruct Noise] else [])"

definition upscale_passes :: "fpu \<Rightarrow> string \<Rightarrow> real \<Rightarrow> nat" where
  "upscale_passes fp md r = (if isReconstructScale md then nat (scale2_of fp r) else 0)"

definition events_to_second_poll :: "fpu \<Rightarrow> string \<Rightarrow> string \<Rightarrow> real \<Rightarrow> event list" where
  "events_to_second_poll fp md input_file r =
     events_to_first_poll md input_file @ [CancelPolled]
       @ replicate (upscale_passes fp md r) (Reconstruct Scale)"

lemma waifu2x_run:
  fixes lib :: "('a, 'img) imglib" and obj :: "'a waifu2x_obj" and fp :: fpu
  assumes "is_inited obj" "sizes_of obj = init_sizes (int cn) b" "0 < cn" "0 < b"
    and "LoadImage lib input_file = Some float_image"
    and "has_dims (CreateBrightnessImage lib float_image) H W" "0 < H" "0 < W"
    and "engine_ok (init_sizes (int cn) b) (net_noise obj)"
    and "engine_ok (init_sizes (int cn) b) (net_scale obj)"
  defines "n \<equiv> upscale_passes fp (mode obj) (scale_ratio obj)"
    and "E1 \<equiv> events_to_first_poll (mode obj) input_file"
    and "E2 \<equiv> events_to_second_poll fp (mode obj) input_file (scale_ratio obj)"
  shows "\<exists>st. has_dims (p_im st) (2 ^ n * H) (2 ^ n * W)
          \<and> p_image_size st = (int (2 ^ n * W), int (2 ^ n * H))
          \<and> p_events st = E2 @ [CancelPolled]
          \<and> (\<forall>cancel_func.
                waifu2x fp lib fresh obj input_file output_file cancel_func =
                  Some (if poll cancel_func E1
                        then stop (Returned eWaifu2xError_Cancel) (E1 @ [CancelPolled])
                        else if poll cancel_func E2
                        then stop (Returned eWaifu2xError_Cancel) (E2 @ [CancelPolled])
                        else finish fp lib (shrinkRatio_of fp (scale_ratio obj)) output_file float_image st))"
proof -
  let ?cf = "init_sizes (int cn) b"
  let ?im = "CreateBrightnessImage lib float_image"
  let ?sa = "\<lparr> p_im = ?im, p_image_size = (mat_cols ?im, mat_rows ?im),
                 p_blocks = blocks_of obj, p_events = [] \<rparr>"
  have d: "mat_rows ?im = int H" "mat_cols ?im = int W"
    using has_dims_rectangular[OF assms(6,7)] by simp_all
  have s0: "has_dims (p_im ?sa) H W" "p_image_size ?sa = (int W, int H)" "p_events ?sa = []"
    using assms(6) d by simp_all
  have "\<exists>st1. (if isReconstructNoise (mode obj) input_file
               then (noise_pass ?cf (net_noise obj) fresh ?sa :: ('img result + 'a pass_state) option)
               else Some (Inr ?sa)) = Some (Inr st1)
           \<and> has_dims (p_im st1) H W \<and> p_image_size st1 = (int W, int H) \<and> p_events st1 = E1"
  proof (cases "isReconstructNoise (mode obj) input_file")
    case True
    then show ?thesis
      using noise_pass_ok[OF assms(3,4,9) s0(1) assms(7,8) s0(2), of fresh]
      by (simp add: E1_def events_to_first_poll_def)
  next
    case False
    then show ?thesis using s0 by (simp add: E1_def events_to_first_poll_def)
  qed
  then obtain st1 where S1:
    "(if isReconstructNoise (mode obj) input_file
      then (noise_pass ?cf (net_noise obj) fresh ?sa :: ('img result + 'a pass_state) option)
      else Some (Inr ?sa)) = Some (Inr st1)"
    "has_dims (p_im st1) H W" "p_image_size st1 = (int W, int H)" "p_events st1 = E1"
    by blast
  let ?sb = "st1\<lparr> p_events := p_events st1 @ [CancelPolled] \<rparr>"
  have s1: "has_dims (p_im ?sb) H W" "p_image_size ?sb = (int W, int H)"
    "p_events ?sb = E1 @ [CancelPolled]"
    using S1 by simp_all
  have "\<exists>st2. (if isReconstructScale (mode obj)
               then (scale_loop ?cf (net_scale obj) fresh (nat (scale2_of fp (scale_ratio obj))) ?sb
                       :: ('img result + 'a pass_state) option)
               else Some (Inr ?sb)) = Some (Inr st2)
           \<and> has_dims (p_im st2) (2 ^ n * H) (2 ^ n * W)
           \<and> p_image_size st2 = (int (2 ^ n * W), int (2 ^ n * H)) \<and> p_events st2 = E2"
  proof (cases "isReconstructScale (mode obj)")
    case True
    then have n: "n = nat (scale2_of fp (scale_ratio obj))" by (simp add: n_def upscale_passes_def)
    show ?thesis
      using scale_loop_ok[OF assms(3,4,10) s1(1) assms(7,8) s1(2), of fresh n] True s1(3)
      by (simp add: n[symmetric] E2_def events_to_second_poll_def E1_def n_def[symmetric])
  next
    case False
    then have n: "n = 0" by (simp add: n_def upscale_passes_def)
    show ?thesis using False s1
      by (simp add: n E2_def events_to_second_poll_def E1_def upscale_passes_def)
  qed
  then obtain st2 where S2:
    "(if isReconstructScale (mode obj)
      then (scale_loop ?cf (net_scale obj) fresh (nat (scale2_of fp (scale_ratio obj))) ?sb
              :: ('img result + 'a pass_state) option)
      else Some (Inr ?sb)) = Some (Inr st2)"
    "has_dims (p_im st2) (2 ^ n * H) (2 ^ n * W)"
    "p_image_size st2 = (int (2 ^ n * W), int (2 ^ n * H))" "p_events st2 = E2"
    by blast
  let ?sf = "st2\<lparr> p_events := p_events st2 @ [CancelPolled] \<rparr>"
  have L2: "(if isReconstructScale (mode obj)
             then (scale_loop (sizes_of obj) (net_scale obj) fresh (nat (scale2_of fp (scale_ratio obj))) ?sb
                     :: ('img result + 'a pass_state) option)
             else Some (Inr ?sb)) = Some (Inr st2)"
    using S2(1) by (simp only: assms(2))
  have L1: "(if isReconstructNoise (mode obj) input_file
             then (noise_pass (sizes_of obj) (net_noise obj) fresh ?sa :: ('img result + 'a pass_state) option)
             else Some (Inr ?sa)) = Some (Inr st1)"
    using S1(1) by (simp only: assms(2))
  have A: "\<And>cancel_func. after_noise fp lib fresh obj output_file cancel_func float_image
                (isReconstructScale (mode obj)) st1 =
             Some (if poll cancel_func E1
                   then stop (Returned eWaifu2xError_Cancel) (E1 @ [CancelPolled])
                   else if poll cancel_func E2
                   then stop (Returned eWaifu2xError_Cancel) (E2 @ [CancelPolled])
                   else finish fp lib (shrinkRatio_of fp (scale_ratio obj)) output_file float_image ?sf)"
    unfolding after_noise_def Let_def L2 by (simp add: S1(4) S2(4))
  have "\<And>cancel_func. waifu2x fp lib fresh obj input_file output_file cancel_func =
             Some (if poll cancel_func E1
                   then stop (Returned eWaifu2xError_Cancel) (E1 @ [CancelPolled])
                   else if poll cancel_func E2
                   then stop (Returned eWaifu2xError_Cancel) (E2 @ [CancelPolled])
                   else finish fp lib (shrinkRatio_of fp (scale_ratio obj)) output_file float_image ?sf)"
    unfolding waifu2x_def Let_def assms(5) option.case L1 using assms(1) by (simp add: A)
  moreover have "has_dims (p_im ?sf) (2 ^ n * H) (2 ^ n * W)"
    "p_image_size ?sf = (int (2 ^ n * W), int (2 ^ n * H))" "p_events ?sf = E2 @ [CancelPolled]"
    using S2 by simp_all
  ultimately show ?thesis by blast
qed

lemma waifu2x_run_int:
  fixes lib :: "('a, 'img) imglib" and obj :: "'a waifu2x_obj" and fp :: fpu
  assumes "is_inited obj" "sizes_of obj = init_sizes CropSize BatchSize" "0 < CropSize" "0 < BatchSize"
    and "LoadImage lib input_file = Some float_image"
    and "rectangular (CreateBrightnessImage lib float_image)"
    and "0 < mat_cols (CreateBrightnessImage lib float_image)"
    and "0 < mat_rows (CreateBrightnessImage lib float_image)"
    and "engine_ok (sizes_of obj) (net_noise obj)"
    and "engine_ok (sizes_of obj) (net_scale obj)"
  shows "\<exists>st. p_image_size st
               = (2 ^ upscale_passes fp (mode obj) (scale_ratio obj) * mat_cols (CreateBrightnessImage lib float_image),
                  2 ^ upscale_passes fp (mode obj) (scale_ratio obj) * mat_rows (CreateBrightnessImage lib float_image))
          \<and> p_events st = events_to_second_poll fp (mode obj) input_file (scale_ratio obj) @ [CancelPolled]
          \<and> (\<forall>cancel_func.
                waifu2x fp lib fresh obj input_file output_file cancel_func =
                  Some (if poll cancel_func (events_to_first_poll (mode obj) input_file)
                        then stop (Returned eWaifu2xError_Cancel)
                               (events_to_first_poll (mode obj) input_file @ [CancelPolled])
                        else if poll cancel_func (events_to_second_poll fp (mode obj) input_file (scale_ratio obj))
                        then stop (Returned eWaifu2xError_Cancel)
                               (events_to_second_poll fp (mode obj) input_file (scale_ratio obj) @ [CancelPolled])
                        else finish fp lib (shrinkRatio_of fp (scale_ratio obj)) output_file float_image st))"
proof -
  let ?im = "CreateBrightnessImage lib float_image"
  define cn where "cn = nat CropSize"
  define H where "H = nat (mat_rows ?im)"
  define W where "W = nat (mat_cols ?im)"
  have c: "CropSize = int cn" "0 < cn" using assms(3) by (simp_all add: cn_def)
  have e: "mat_rows ?im = int H" "mat_cols ?im = int W" "0 < H" "0 < W"
    using assms(7,8) by (simp_all add: H_def W_def)
  have hd: "has_dims ?im H W" unfolding H_def W_def using assms(6) by (rule has_dims_of_rectangular)
  have sz: "sizes_of obj = init_sizes (int cn) BatchSize" using assms(2) c(1) by simp
  have en: "engine_ok (init_sizes (int cn) BatchSize) (net_noise obj)"
    "engine_ok (init_sizes (int cn) BatchSize) (net_scale obj)"
    using assms(9,10) sz by simp_all
  obtain st where S:
    "p_image_size st = (int (2 ^ upscale_passes fp (mode obj) (scale_ratio obj) * W),
                        int (2 ^ upscale_passes fp (mode obj) (scale_ratio obj) * H))"
    "p_events st = events_to_second_poll fp (mode obj) input_file (scale_ratio obj) @ [CancelPolled]"
    "\<forall>cancel_func.
                waifu2x fp lib fresh obj input_file output_file cancel_func =
                  Some (if poll cancel_func (events_to_first_poll (mode obj) input_file)
                        then stop (Returned eWaifu2xError_Cancel)
                               (events_to_first_poll (mode obj) input_file @ [CancelPolled])
                        else if poll cancel_func (events_to_second_poll fp (mode obj) input_file (scale_ratio obj))
                        then stop (Returned eWaifu2xError_Cancel)
                               (events_to_second_poll fp (mode obj) input_file (scale_ratio obj) @ [CancelPolled])
                        else finish fp lib (shrinkRatio_of fp (scale_ratio obj)) output_file float_image st)"
    using waifu2x_run[OF assms(1) sz c(2) assms(4,5) hd e(3,4) en, where fresh = fresh
        and output_file = output_file and fp = fp] by blast
  have "p_image_size st = (2 ^ upscale_passes fp (mode obj) (scale_ratio obj) * mat_cols ?im,
                           2 ^ upscale_passes fp (mode obj) (scale_ratio obj) * mat_rows ?im)"
    unfolding S(1) e(1,2) by simp
  then show ?thesis using S(2,3) by blast
qed

section \<open>Examples\<close>

lemma blank_net_ok: "engine_ok cf (blank_net cf z)"
proof -
  have "\<And>xs :: 'a list. int (length xs) mod (input_block_size cf * input_block_size cf) = 0 \<Longrightarrow>
          int (length (replicate (nat (int (length xs) div (input_block_size cf * input_block_size cf)
                            * (output_block_size cf * output_block_size cf))) z))
            * (input_block_size cf * input_block_size cf)
          = int (length xs) * (output_block_size cf * output_block_size cf)"
  proof -
    fix xs :: "'a list"
    let ?i = "input_block_size cf * input_block_size cf"
    let ?o = "output_block_size cf * output_block_size cf"
    assume m: "int (length xs) mod ?i = 0"
    have i0: "0 \<le> ?i" and o0: "0 \<le> ?o" by simp_all
    have "0 \<le> int (length xs) div ?i" using i0 by (simp add: pos_imp_zdiv_nonneg_iff div_int_pos_iff)
    then have nn: "0 \<le> int (length xs) div ?i * ?o" using o0 by (rule mult_nonneg_nonneg)
    have e: "int (length xs) div ?i * ?i = int (length xs)" using m by (simp add: mod_0_imp_dvd)
    have "int (length (replicate (nat (int (length xs) div ?i * ?o)) z)) * ?i
            = (int (length xs) div ?i * ?o) * ?i"
      using nn by simp
    also have "\<dots> = (int (length xs) div ?i * ?i) * ?o" by (simp only: ac_simps)
    finally show "int (length (replicate (nat (int (length xs) div ?i * ?o)) z)) * ?i
            = int (length xs) * ?o"
      unfolding e .
  qed
  then show ?thesis by (simp add: engine_ok_def blank_net_def del: length_replicate)
qed

text \<open>
  An arithmetic for the examples: every operation returns the exact result.  The examples
  use the ratios 1/2, 2, 3 and 4 and images of at most 8 by 8 pixels.  There the exact
  quotients and products are doubles, \<open>log\<^sub>2\<close> of 1/2, 2 and 4 is an integer, \<open>log\<^sub>2 3\<close> lies
  strictly between 1 and 2, and the powers of 2 are doubles, so that \<^verbatim>\<open>scale2\<close>,
  \<^verbatim>\<open>shrinkRatio\<close> and \<^verbatim>\<open>ns\<close> are the values that \<^verbatim>\<open>double\<close> arithmetic gives.
\<close>

definition example_fpu :: fpu where
  "example_fpu = \<lparr> fp_log2 = log 2, fp_pow = (powr), fp_div = (/), fp_mul = (*) \<rparr>"

text \<open>
  An image library for the examples: an image is its luminance plane, every file with a
  nonempty name holds the image \<open>img\<close>, the resize returns a blank image of the target
  size, and writing succeeds for a nonempty file name.  \<^verbatim>\<open>example_lib\<close> holds an image of 2
  by 2 pixels, \<^verbatim>\<open>pixel_lib\<close> an image of one pixel.  The object of the examples has tiles of
  side 2 and batches of one tile.
\<close>

definition image_lib :: "int mat \<Rightarrow> (int, int mat) imglib" where
  "image_lib img =
     \<lparr> LoadImage = (\<lambda>f. if f = [] then None else Some img),
       CreateBrightnessImage = (\<lambda>img. img),
       recompose = (\<lambda>float_image image_size im. im),
       resize_linear = (\<lambda>img ns. replicate (nat (snd ns)) (replicate (nat (fst ns)) 0)),
       imwrite = (\<lambda>f img. f \<noteq> []) \<rparr>"

definition example_lib :: "(int, int mat) imglib" where
  "example_lib = image_lib [[1, 2], [3, 4]]"

definition pixel_lib :: "(int, int mat) imglib" where
  "pixel_lib = image_lib [[5]]"

definition example_obj :: "string \<Rightarrow> real \<Rightarrow> int net \<Rightarrow> int net \<Rightarrow> int waifu2x_obj" where
  "example_obj md r nn ns =
     \<lparr> is_inited = True, mode = md, scale_ratio = r, sizes_of = init_sizes 2 1,
       net_noise = nn, net_scale = ns, blocks_of = blocks0 (init_sizes 2 1) 0 \<rparr>"

lemma example_scale2:
  "scale2_of example_fpu 3 = 2" "scale2_of example_fpu 2 = 1" "scale2_of example_fpu 1 = 0"
  "scale2_of example_fpu 4 = 2" "scale2_of example_fpu (1 / 2) = - 1"
proof -
  have "\<lceil>log (real 2) (real 3)\<rceil> = int 1 + 1" by (rule ceiling_log_nat_eq_if) simp_all
  then show "scale2_of example_fpu 3 = 2" by (simp add: scale2_of_def example_fpu_def c_trunc_def)
  show "scale2_of example_fpu 2 = 1" by (simp add: scale2_of_def example_fpu_def c_trunc_def)
  show "scale2_of example_fpu 1 = 0" by (simp add: scale2_of_def example_fpu_def c_trunc_def)
  have "log 2 (4::real) = log 2 (2 ^ 2)" by simp
  also have "\<dots> = 2" by (subst log_pow_cancel) simp_all
  finally show "scale2_of example_fpu 4 = 2"
    by (simp add: scale2_of_def example_fpu_def c_trunc_def)
  have "log 2 (1 / 2 :: real) = log 2 1 - log 2 2" by (subst log_divide) simp_all
  then have "log 2 (1 / 2 :: real) = of_int (- 1)" by simp
  then have c: "\<lceil>log 2 (1 / 2 :: real)\<rceil> = - 1" by (simp only: ceiling_of_int)
  have "scale2_of example_fpu (1 / 2) = c_trunc (real_of_int \<lceil>log 2 (1 / 2 :: real)\<rceil>)"
    by (simp add: scale2_of_def example_fpu_def)
  then show "scale2_of example_fpu (1 / 2) = - 1"
    unfolding c by (simp only: c_trunc_of_int)
qed

lemma example_shrinkRatio:
  "shrinkRatio_of example_fpu 3 = 3 / 4" "shrinkRatio_of example_fpu 2 = 1"
  "shrinkRatio_of example_fpu 1 = 1" "shrinkRatio_of example_fpu 4 = 1"
  "shrinkRatio_of example_fpu (1 / 2) = 1"
  by (simp_all add: shrinkRatio_of_def example_scale2 powr_minus_divide)
     (simp_all add: example_fpu_def powr_minus_divide)

lemma example_mul: "fp_mul example_fpu x y = x * y"
  by (simp add: example_fpu_def)

lemma image_lib_fields:
  "f \<noteq> [] \<Longrightarrow> LoadImage (image_lib img) f = Some img"
  "CreateBrightnessImage (image_lib img) i = i"
  "recompose (image_lib img) float_image image_size im = im"
  "resize_linear (image_lib img) i ns = replicate (nat (snd ns)) (replicate (nat (fst ns)) 0)"
  "imwrite (image_lib img) ''out.png'' i"
  by (simp_all add: image_lib_def)

lemma example_plane:
  "rectangular [[1, 2], [3, 4::int]]" "mat_cols [[1, 2], [3, 4::int]] = 2" "mat_rows [[1, 2], [3, 4::int]] = 2"
  "rectangular [[5::int]]" "mat_cols [[5::int]] = 1" "mat_rows [[5::int]] = 1"
  by (simp_all add: rectangular_def mat_cols_def mat_rows_def)

lemma example_obj_fields:
  "is_inited (example_obj md r nn ns)" "mode (example_obj md r nn ns) = md"
  "scale_ratio (example_obj md r nn ns) = r" "sizes_of (example_obj md r nn ns) = init_sizes 2 1"
  "net_noise (example_obj md r nn ns) = nn" "net_scale (example_obj md r nn ns) = ns"
  by (simp_all add: example_obj_def)

text \<open>
  The three ways in which \<^verbatim>\<open>finish\<close> ends when the write succeeds.
\<close>

lemma finish_cases:
  assumes "p_image_size st = (w, h)"
    and "\<And>img. imwrite lib output_file img"
  shows "c_trunc (fp_mul fp (real_of_int w) s) = w \<Longrightarrow> c_trunc (fp_mul fp (real_of_int h) s) = h \<Longrightarrow>
         finish fp lib s output_file float_image st =
           \<lparr> outcome = Returned eWaifu2xError_OK, events = p_events st @ [Written],
             written = Some (recompose lib float_image (w, h) (p_im st)) \<rparr>"
    and "c_trunc (fp_mul fp (real_of_int w) s) \<noteq> w \<or> c_trunc (fp_mul fp (real_of_int h) s) \<noteq> h \<Longrightarrow>
         0 < c_trunc (fp_mul fp (real_of_int w) s) \<Longrightarrow> 0 < c_trunc (fp_mul fp (real_of_int h) s) \<Longrightarrow>
         finish fp lib s output_file float_image st =
           \<lparr> outcome = Returned eWaifu2xError_OK,
             events = p_events st @ [LinearResize (c_trunc (fp_mul fp (real_of_int w) s))
                                       (c_trunc (fp_mul fp (real_of_int h) s)), Written],
             written = Some (resize_linear lib (recompose lib float_image (w, h) (p_im st))
                               (c_trunc (fp_mul fp (real_of_int w) s),
                                c_trunc (fp_mul fp (real_of_int h) s))) \<rparr>"
    and "c_trunc (fp_mul fp (real_of_int w) s) \<noteq> w \<or> c_trunc (fp_mul fp (real_of_int h) s) \<noteq> h \<Longrightarrow>
         c_trunc (fp_mul fp (real_of_int w) s) \<le> 0 \<or> c_trunc (fp_mul fp (real_of_int h) s) \<le> 0 \<Longrightarrow>
         finish fp lib s output_file float_image st = stop Uncaught (p_events st)"
  using assms by (auto simp: finish_def Let_def)

text \<open>
  The run of an example whose engines are blank.
\<close>

lemma example_run:
  assumes "f \<noteq> []" "rectangular img" "0 < mat_cols img" "0 < mat_rows img"
  shows "\<exists>st. p_image_size st = (2 ^ upscale_passes fp md r * mat_cols img,
                                 2 ^ upscale_passes fp md r * mat_rows img)
          \<and> p_events st = events_to_second_poll fp md f r @ [CancelPolled]
          \<and> (\<forall>cancel_func.
                waifu2x fp (image_lib img) 0
                  (example_obj md r (blank_net (init_sizes 2 1) 0) (blank_net (init_sizes 2 1) 0))
                  f ''out.png'' cancel_func =
                  Some (if poll cancel_func (events_to_first_poll md f)
                        then stop (Returned eWaifu2xError_Cancel)
                               (events_to_first_poll md f @ [CancelPolled])
                        else if poll cancel_func (events_to_second_poll fp md f r)
                        then stop (Returned eWaifu2xError_Cancel)
                               (events_to_second_poll fp md f r @ [CancelPolled])
                        else finish fp (image_lib img) (shrinkRatio_of fp r) ''out.png'' img st))"
proof -
  let ?obj = "example_obj md r (blank_net (init_sizes 2 1) 0) (blank_net (init_sizes 2 1) 0)"
  have p: "is_inited ?obj" "sizes_of ?obj = init_sizes 2 1" "0 < (2::int)" "0 < (1::int)"
    "LoadImage (image_lib img) f = Some img"
    "rectangular (CreateBrightnessImage (image_lib img) img)"
    "0 < mat_cols (CreateBrightnessImage (image_lib img) img)"
    "0 < mat_rows (CreateBrightnessImage (image_lib img) img)"
    "engine_ok (sizes_of ?obj) (net_noise ?obj)"
    "engine_ok (sizes_of ?obj) (net_scale ?obj)"
    using assms by (simp_all add: example_obj_fields image_lib_fields blank_net_ok)
  note R = waifu2x_run_int[OF p, where fresh = 0 and output_file = "''out.png''" and fp = fp,
      unfolded example_obj_fields image_lib_fields(2)]
  show ?thesis by (rule R)
qed

text \<open>
  The number of upscale passes of a run: the calls of \<^verbatim>\<open>ReconstructImage(net_scale, im)\<close>
  in its history.
\<close>

definition scale_passes :: "'img result \<Rightarrow> nat" where
  "scale_passes res = count_list (events res) (Reconstruct Scale)"

section \<open>The scale ratio\<close>

text \<open>
  Claim C3.  At ratio 1/2 in mode \<^verbatim>\<open>scale\<close> the value of \<^verbatim>\<open>scale2\<close> is \<open>-1\<close>.  The loop
  \<^verbatim>\<open>for (i = 0; i < scale2; i++)\<close> does not run, and \<^verbatim>\<open>shrinkRatio\<close> is computed with the
  negative exponent: \<open>(1/2) / 2\<^sup>-\<^sup>1 = 1\<close>.  The image of 2 by 2 pixels is written as it was
  read, at ratio 1 instead of the ratio 1/2 that the passes and the last resize are to
  reach together.
\<close>

theorem scale_half_keeps_size:
  "waifu2x example_fpu example_lib 0
     (example_obj ''scale'' (1 / 2) (blank_net (init_sizes 2 1) 0) (blank_net (init_sizes 2 1) 0))
     ''in.png'' ''out.png'' None
   = Some \<lparr> outcome = Returned eWaifu2xError_OK,
            events = [CancelPolled, CancelPolled, Written],
            written = Some [[1, 2], [3, 4]] \<rparr>
   \<and> scale2_of example_fpu (1 / 2) = - 1
   \<and> shrinkRatio_of example_fpu (1 / 2) = 1"
proof -
  have "waifu2x example_fpu example_lib 0
     (example_obj ''scale'' (1 / 2) (blank_net (init_sizes 2 1) 0) (blank_net (init_sizes 2 1) 0))
     ''in.png'' ''out.png'' None
   = Some \<lparr> outcome = Returned eWaifu2xError_OK,
            events = [CancelPolled, CancelPolled, Written],
            written = Some [[1, 2], [3, 4]] \<rparr>"
    by (simp add: waifu2x_def after_noise_def finish_def Let_def example_obj_fields
        example_lib_def image_lib_fields example_plane isReconstructNoise_def
        isReconstructScale_def poll_def example_scale2 example_shrinkRatio example_mul
        c_trunc_def)
  then show ?thesis by (simp add: example_scale2 example_shrinkRatio)
qed

section \<open>Cancellation\<close>

text \<open>
  A cancellation function that answers yes once the event \<open>e\<close> is in the history of the
  run.
\<close>

definition cancel_when :: "event \<Rightarrow> event list \<Rightarrow> bool" where
  "cancel_when e evs = (e \<in> set evs)"

lemma finish_events:
  "\<exists>tl. events (finish fp lib s output_file float_image st) = p_events st @ tl
        \<and> CancelPolled \<notin> set tl \<and> Reconstruct Noise \<notin> set tl \<and> Reconstruct Scale \<notin> set tl"
  by (simp add: finish_def Let_def stop_def)

text \<open>
  Claim C5, amended.  A run whose engine does not fail calls the cancellation function
  exactly twice: after the denoise pass, if there is one, and after the whole upscale loop.
  It is not called between two upscale passes nor inside a pass.  An answer yes at the
  first call ends the run with \<^verbatim>\<open>eWaifu2xError_Cancel\<close> before any upscale pass; an answer
  yes at the second call ends it with \<^verbatim>\<open>eWaifu2xError_Cancel\<close> after all upscale passes;
  in both cases nothing is written.  With two answers no the run is the run without a
  cancellation function, whatever the function would answer later.
\<close>

theorem cancellation_polls:
  fixes lib :: "('a, 'img) imglib" and obj :: "'a waifu2x_obj"
  assumes "is_inited obj" and "sizes_of obj = init_sizes CropSize BatchSize"
    and "0 < CropSize" and "0 < BatchSize"
    and "LoadImage lib input_file = Some float_image"
    and "rectangular (CreateBrightnessImage lib float_image)"
    and "0 < mat_cols (CreateBrightnessImage lib float_image)"
    and "0 < mat_rows (CreateBrightnessImage lib float_image)"
    and "engine_ok (sizes_of obj) (net_noise obj)"
    and "engine_ok (sizes_of obj) (net_scale obj)"
  shows "waifu2x fp lib fresh obj input_file output_file cancel_func =
           (if poll cancel_func (events_to_first_poll (mode obj) input_file)
            then Some (stop (Returned eWaifu2xError_Cancel)
                         (events_to_first_poll (mode obj) input_file @ [CancelPolled]))
            else if poll cancel_func
                      (events_to_first_poll (mode obj) input_file @ [CancelPolled]
                         @ replicate (upscale_passes fp (mode obj) (scale_ratio obj)) (Reconstruct Scale))
            then Some (stop (Returned eWaifu2xError_Cancel)
                         (events_to_first_poll (mode obj) input_file @ [CancelPolled]
                            @ replicate (upscale_passes fp (mode obj) (scale_ratio obj)) (Reconstruct Scale)
                            @ [CancelPolled]))
            else waifu2x fp lib fresh obj input_file output_file None)
         \<and> (\<exists>res tl. waifu2x fp lib fresh obj input_file output_file None = Some res
               \<and> events res =
                   events_to_first_poll (mode obj) input_file @ [CancelPolled]
                     @ replicate (upscale_passes fp (mode obj) (scale_ratio obj)) (Reconstruct Scale)
                     @ [CancelPolled] @ tl
               \<and> CancelPolled \<notin> set tl \<and> Reconstruct Noise \<notin> set tl \<and> Reconstruct Scale \<notin> set tl)"
proof -
  let ?E1 = "events_to_first_poll (mode obj) input_file"
  let ?E2 = "events_to_second_poll fp (mode obj) input_file (scale_ratio obj)"
  let ?s = "shrinkRatio_of fp (scale_ratio obj)"
  obtain st where S: "p_events st = ?E2 @ [CancelPolled]"
    and R: "\<And>cancel_func.
                waifu2x fp lib fresh obj input_file output_file cancel_func =
                  Some (if poll cancel_func ?E1
                        then stop (Returned eWaifu2xError_Cancel) (?E1 @ [CancelPolled])
                        else if poll cancel_func ?E2
                        then stop (Returned eWaifu2xError_Cancel) (?E2 @ [CancelPolled])
                        else finish fp lib ?s output_file float_image st)"
    using waifu2x_run_int[OF assms(1-10), where fresh = fresh and output_file = output_file
        and fp = fp] by blast
  have E2: "?E2 = ?E1 @ [CancelPolled]
                   @ replicate (upscale_passes fp (mode obj) (scale_ratio obj)) (Reconstruct Scale)"
    by (simp add: events_to_second_poll_def)
  have N: "waifu2x fp lib fresh obj input_file output_file None
             = Some (finish fp lib ?s output_file float_image st)"
    unfolding R by (simp add: poll_def)
  obtain tl where T: "events (finish fp lib ?s output_file float_image st) = p_events st @ tl"
      "CancelPolled \<notin> set tl" "Reconstruct Noise \<notin> set tl" "Reconstruct Scale \<notin> set tl"
    using finish_events[of fp lib ?s output_file float_image st] by blast
  have a: "waifu2x fp lib fresh obj input_file output_file cancel_func =
           (if poll cancel_func ?E1
            then Some (stop (Returned eWaifu2xError_Cancel) (?E1 @ [CancelPolled]))
            else if poll cancel_func ?E2
            then Some (stop (Returned eWaifu2xError_Cancel) (?E2 @ [CancelPolled]))
            else waifu2x fp lib fresh obj input_file output_file None)"
    unfolding N unfolding R by simp
  have b: "\<exists>res tl. waifu2x fp lib fresh obj input_file output_file None = Some res
               \<and> events res = ?E2 @ [CancelPolled] @ tl
               \<and> CancelPolled \<notin> set tl \<and> Reconstruct Noise \<notin> set tl \<and> Reconstruct Scale \<notin> set tl"
    using N T S by auto
  show ?thesis using a b unfolding E2 by simp
qed

text \<open>
  Mode \<^verbatim>\<open>noise_scale\<close>, ratio 2, a function that answers yes once the denoise pass has run:
  the run ends at the first call.
\<close>

theorem cancellation_polls_witness:
  "waifu2x example_fpu example_lib 0
     (example_obj ''noise_scale'' 2 (blank_net (init_sizes 2 1) 0) (blank_net (init_sizes 2 1) 0))
     ''in.png'' ''out.png'' (Some (cancel_when (Reconstruct Noise)))
   = Some (stop (Returned eWaifu2xError_Cancel) [Reconstruct Noise, CancelPolled])"
proof -
  let ?obj = "example_obj ''noise_scale'' 2 (blank_net (init_sizes 2 1) 0) (blank_net (init_sizes 2 1) 0)"
  have p: "is_inited ?obj" "sizes_of ?obj = init_sizes 2 1" "0 < (2::int)" "0 < (1::int)"
    "LoadImage example_lib ''in.png'' = Some [[1, 2], [3, 4]]"
    "rectangular (CreateBrightnessImage example_lib [[1, 2], [3, 4]])"
    "0 < mat_cols (CreateBrightnessImage example_lib [[1, 2], [3, 4]])"
    "0 < mat_rows (CreateBrightnessImage example_lib [[1, 2], [3, 4]])"
    "engine_ok (sizes_of ?obj) (net_noise ?obj)"
    "engine_ok (sizes_of ?obj) (net_scale ?obj)"
    by (simp_all add: example_obj_fields example_lib_def image_lib_fields example_plane blank_net_ok)
  have e: "events_to_first_poll (mode ?obj) ''in.png'' = [Reconstruct Noise]"
    by (simp add: example_obj_fields events_to_first_poll_def isReconstructNoise_def)
  have c: "poll (Some (cancel_when (Reconstruct Noise))) [Reconstruct Noise]"
    by (simp add: poll_def cancel_when_def)
  show ?thesis
    using cancellation_polls[OF p, where fresh = 0 and output_file = "''out.png''"
        and cancel_func = "Some (cancel_when (Reconstruct Noise))" and fp = example_fpu]
    unfolding e using c by simp
qed

text \<open>
  Mode \<^verbatim>\<open>scale\<close>, ratio 4, a function that answers yes once an upscale pass has run, so
  before the second one: the second pass runs all the same.
\<close>

theorem cancellation_polls_counterexample:
  "cancel_when (Reconstruct Scale) [CancelPolled, Reconstruct Scale]
   \<and> waifu2x example_fpu example_lib 0
       (example_obj ''scale'' 4 (blank_net (init_sizes 2 1) 0) (blank_net (init_sizes 2 1) 0))
       ''in.png'' ''out.png'' (Some (cancel_when (Reconstruct Scale)))
     = Some (stop (Returned eWaifu2xError_Cancel)
               [CancelPolled, Reconstruct Scale, Reconstruct Scale, CancelPolled])"
proof -
  have e1: "events_to_first_poll ''scale'' ''in.png'' = []"
    by (simp add: events_to_first_poll_def isReconstructNoise_def)
  have e2: "events_to_second_poll example_fpu ''scale'' ''in.png'' 4
              = [CancelPolled, Reconstruct Scale, Reconstruct Scale]"
    by (simp add: events_to_second_poll_def e1 upscale_passes_def isReconstructScale_def
        example_scale2 numeral_2_eq_2)
  have c: "\<not> poll (Some (cancel_when (Reconstruct Scale))) []"
    "poll (Some (cancel_when (Reconstruct Scale))) [CancelPolled, Reconstruct Scale, Reconstruct Scale]"
    "cancel_when (Reconstruct Scale) [CancelPolled, Reconstruct Scale]"
    by (simp_all add: poll_def cancel_when_def)
  have n: "''in.png'' \<noteq> []" by simp
  show ?thesis
    using example_run[OF n example_plane(1), where fp = example_fpu and md = "''scale''" and r = 4]
    unfolding e1 e2 example_lib_def[symmetric] using c by (auto simp: example_plane)
qed

section \<open>The last resize in the modes without upscaling\<close>

text \<open>
  A fact of IEEE-754 arithmetic that the platform's multiplication is taken to have: the
  product of a positive \<^verbatim>\<open>int\<close> \<open>w\<close> and a \<^verbatim>\<open>double\<close> below 1 is a \<^verbatim>\<open>double\<close> below \<open>w\<close>
  (the exact product is below \<open>w\<close> by at least \<open>w / 2\<^sup>5\<^sup>3\<close>, more than half the distance
  from \<open>w\<close> to the next \<^verbatim>\<open>double\<close> below it).
\<close>

definition mul_below :: "fpu \<Rightarrow> bool" where
  "mul_below fp = (\<forall>w s. 0 < w \<longrightarrow> s < 1 \<longrightarrow> fp_mul fp (real_of_int w) s < real_of_int w)"

lemma c_trunc_less:
  assumes "x < real_of_int w" "0 < c_trunc x"
  shows "c_trunc x < w"
proof -
  have "0 \<le> x" using assms(2) by (simp add: c_trunc_def split: if_splits)
  then have "c_trunc x = \<lfloor>x\<rfloor>" by (simp add: c_trunc_def)
  then show ?thesis using assms(1) by (simp add: floor_less_iff)
qed

text \<open>
  Claim C10, amended.  \<^verbatim>\<open>shrinkRatio\<close> is computed from the scale ratio in every mode.  In
  mode \<^verbatim>\<open>noise\<close>, when \<^verbatim>\<open>shrinkRatio\<close> is below 1 and neither side of the target
  \<^verbatim>\<open>ns = (trunc (width * shrinkRatio), trunc (height * shrinkRatio))\<close> is 0, a run that is
  not cancelled and whose engine does not fail performs the denoise pass and no upscale
  pass, then resizes the image to \<^verbatim>\<open>ns\<close>, which is smaller than the input in both
  directions, and writes the resized image.
\<close>

theorem denoise_only_still_resized:
  fixes lib :: "('a, 'img) imglib" and obj :: "'a waifu2x_obj" and fp :: fpu
  assumes "is_inited obj" and "sizes_of obj = init_sizes CropSize BatchSize"
    and "0 < CropSize" and "0 < BatchSize"
    and "LoadImage lib input_file = Some float_image"
    and "rectangular (CreateBrightnessImage lib float_image)"
    and "0 < mat_cols (CreateBrightnessImage lib float_image)"
    and "0 < mat_rows (CreateBrightnessImage lib float_image)"
    and "engine_ok (sizes_of obj) (net_noise obj)"
    and "engine_ok (sizes_of obj) (net_scale obj)"
    and "mode obj = ''noise''"
    and "mul_below fp"
    and "shrinkRatio_of fp (scale_ratio obj) < 1"
    and "0 < c_trunc (fp_mul fp (real_of_int (mat_cols (CreateBrightnessImage lib float_image)))
                        (shrinkRatio_of fp (scale_ratio obj)))"
    and "0 < c_trunc (fp_mul fp (real_of_int (mat_rows (CreateBrightnessImage lib float_image)))
                        (shrinkRatio_of fp (scale_ratio obj)))"
    and "\<forall>evs. \<not> poll cancel_func evs"
    and "\<forall>img. imwrite lib output_file img"
  shows "\<exists>res im'. waifu2x fp lib fresh obj input_file output_file cancel_func = Some res
          \<and> outcome res = Returned eWaifu2xError_OK
          \<and> scale_passes res = 0
          \<and> events res =
               [Reconstruct Noise, CancelPolled, CancelPolled,
                LinearResize
                  (c_trunc (fp_mul fp (real_of_int (mat_cols (CreateBrightnessImage lib float_image)))
                              (shrinkRatio_of fp (scale_ratio obj))))
                  (c_trunc (fp_mul fp (real_of_int (mat_rows (CreateBrightnessImage lib float_image)))
                              (shrinkRatio_of fp (scale_ratio obj)))),
                Written]
          \<and> written res =
               Some (resize_linear lib
                 (recompose lib float_image
                    (mat_cols (CreateBrightnessImage lib float_image),
                     mat_rows (CreateBrightnessImage lib float_image)) im')
                 (c_trunc (fp_mul fp (real_of_int (mat_cols (CreateBrightnessImage lib float_image)))
                             (shrinkRatio_of fp (scale_ratio obj))),
                  c_trunc (fp_mul fp (real_of_int (mat_rows (CreateBrightnessImage lib float_image)))
                             (shrinkRatio_of fp (scale_ratio obj)))))
          \<and> c_trunc (fp_mul fp (real_of_int (mat_cols (CreateBrightnessImage lib float_image)))
                       (shrinkRatio_of fp (scale_ratio obj)))
              < mat_cols (CreateBrightnessImage lib float_image)
          \<and> c_trunc (fp_mul fp (real_of_int (mat_rows (CreateBrightnessImage lib float_image)))
                       (shrinkRatio_of fp (scale_ratio obj)))
              < mat_rows (CreateBrightnessImage lib float_image)"
proof -
  let ?im = "CreateBrightnessImage lib float_image"
  let ?r = "scale_ratio obj"
  let ?s = "shrinkRatio_of fp ?r"
  let ?w = "mat_cols ?im" and ?h = "mat_rows ?im"
  let ?E2 = "events_to_second_poll fp (mode obj) input_file ?r"
  let ?tw = "c_trunc (fp_mul fp (real_of_int ?w) ?s)"
  let ?th = "c_trunc (fp_mul fp (real_of_int ?h) ?s)"
  have up: "upscale_passes fp (mode obj) ?r = 0"
    unfolding assms(11) by (simp add: upscale_passes_def isReconstructScale_def)
  obtain st where S: "p_image_size st = (?w, ?h)" "p_events st = ?E2 @ [CancelPolled]"
    and R: "\<forall>cancel_func.
                waifu2x fp lib fresh obj input_file output_file cancel_func =
                  Some (if poll cancel_func (events_to_first_poll (mode obj) input_file)
                        then stop (Returned eWaifu2xError_Cancel)
                               (events_to_first_poll (mode obj) input_file @ [CancelPolled])
                        else if poll cancel_func ?E2
                        then stop (Returned eWaifu2xError_Cancel) (?E2 @ [CancelPolled])
                        else finish fp lib ?s output_file float_image st)"
    using waifu2x_run_int[OF assms(1-10), where fresh = fresh and output_file = output_file
        and fp = fp] unfolding up by auto
  have W: "waifu2x fp lib fresh obj input_file output_file cancel_func
             = Some (finish fp lib ?s output_file float_image st)"
    using R assms(16) by simp
  have iw: "\<And>img. imwrite lib output_file img" using assms(17) by simp
  have E2: "?E2 = [Reconstruct Noise, CancelPolled]"
    unfolding events_to_second_poll_def up unfolding assms(11)
    by (simp add: events_to_first_poll_def isReconstructNoise_def)
  have bw: "fp_mul fp (real_of_int ?w) ?s < real_of_int ?w"
    using assms(12,13,7) unfolding mul_below_def by blast
  have bh: "fp_mul fp (real_of_int ?h) ?s < real_of_int ?h"
    using assms(12,13,8) unfolding mul_below_def by blast
  have lw: "?tw < ?w" using bw assms(14) by (rule c_trunc_less)
  have lh: "?th < ?h" using bh assms(15) by (rule c_trunc_less)
  have ne: "?tw \<noteq> ?w \<or> ?th \<noteq> ?h" using lw by simp
  have F: "finish fp lib ?s output_file float_image st =
           \<lparr> outcome = Returned eWaifu2xError_OK,
             events = p_events st @ [LinearResize ?tw ?th, Written],
             written = Some (resize_linear lib (recompose lib float_image (?w, ?h) (p_im st))
                               (?tw, ?th)) \<rparr>"
    by (rule finish_cases(2)[OF S(1) iw ne assms(14,15)])
  have o: "outcome (finish fp lib ?s output_file float_image st) = Returned eWaifu2xError_OK"
    and c: "scale_passes (finish fp lib ?s output_file float_image st) = 0"
    and e: "events (finish fp lib ?s output_file float_image st)
          = [Reconstruct Noise, CancelPolled, CancelPolled, LinearResize ?tw ?th, Written]"
    and r: "written (finish fp lib ?s output_file float_image st)
          = Some (resize_linear lib (recompose lib float_image (?w, ?h) (p_im st)) (?tw, ?th))"
    unfolding F S(2) E2 by (simp_all add: scale_passes_def)
  show ?thesis
    apply (rule exI[of _ "finish fp lib ?s output_file float_image st"])
    apply (rule exI[of _ "p_im st"])
    apply (simp only: W o c e r lw lh simp_thms)
    done
qed

text \<open>Mode \<^verbatim>\<open>noise\<close> at ratio 3: the image of 2 by 2 pixels is written as one pixel.\<close>

theorem denoise_only_still_resized_witness:
  "\<exists>res. waifu2x example_fpu example_lib 0
            (example_obj ''noise'' 3 (blank_net (init_sizes 2 1) 0) (blank_net (init_sizes 2 1) 0))
            ''in.png'' ''out.png'' None = Some res
       \<and> outcome res = Returned eWaifu2xError_OK
       \<and> scale_passes res = 0
       \<and> events res = [Reconstruct Noise, CancelPolled, CancelPolled, LinearResize 1 1, Written]
       \<and> written res = Some [[0]]"
proof -
  let ?obj = "example_obj ''noise'' 3 (blank_net (init_sizes 2 1) 0) (blank_net (init_sizes 2 1) 0)"
  have t: "c_trunc (3 / 2) = 1" by (simp add: c_trunc_def)
  have mb: "mul_below example_fpu" by (simp add: mul_below_def example_mul)
  have p: "is_inited ?obj" "sizes_of ?obj = init_sizes 2 1" "0 < (2::int)" "0 < (1::int)"
    "LoadImage example_lib ''in.png'' = Some [[1, 2], [3, 4]]"
    "rectangular (CreateBrightnessImage example_lib [[1, 2], [3, 4]])"
    "0 < mat_cols (CreateBrightnessImage example_lib [[1, 2], [3, 4]])"
    "0 < mat_rows (CreateBrightnessImage example_lib [[1, 2], [3, 4]])"
    "engine_ok (sizes_of ?obj) (net_noise ?obj)"
    "engine_ok (sizes_of ?obj) (net_scale ?obj)"
    "mode ?obj = ''noise''"
    "mul_below example_fpu"
    "shrinkRatio_of example_fpu (scale_ratio ?obj) < 1"
    "0 < c_trunc (fp_mul example_fpu (real_of_int (mat_cols (CreateBrightnessImage example_lib [[1, 2], [3, 4]])))
                        (shrinkRatio_of example_fpu (scale_ratio ?obj)))"
    "0 < c_trunc (fp_mul example_fpu (real_of_int (mat_rows (CreateBrightnessImage example_lib [[1, 2], [3, 4]])))
                        (shrinkRatio_of example_fpu (scale_ratio ?obj)))"
    "\<forall>evs. \<not> poll None evs"
    "\<forall>img. imwrite example_lib ''out.png'' img"
    by (simp_all add: example_obj_fields example_lib_def image_lib_fields example_plane
        blank_net_ok poll_def example_shrinkRatio example_mul t mb)
  show ?thesis
    using denoise_only_still_resized[OF p, where fresh = 0]
    by (auto simp: example_obj_fields example_lib_def image_lib_fields example_plane
        example_shrinkRatio example_mul t)
qed

text \<open>
  Mode \<^verbatim>\<open>noise\<close> at ratio 3 on an image of one pixel: \<^verbatim>\<open>shrinkRatio\<close> is 3/4, the target
  \<^verbatim>\<open>ns\<close> is 0 by 0, and the exception of \<^verbatim>\<open>cv::resize\<close> ends the run after the denoise pass
  and the two calls of the cancellation function.  No image is written.
\<close>

theorem denoise_only_still_resized_counterexample:
  "shrinkRatio_of example_fpu 3 = 3 / 4
   \<and> waifu2x example_fpu pixel_lib 0
       (example_obj ''noise'' 3 (blank_net (init_sizes 2 1) 0) (blank_net (init_sizes 2 1) 0))
       ''in.png'' ''out.png'' None
     = Some \<lparr> outcome = Uncaught, events = [Reconstruct Noise, CancelPolled, CancelPolled],
              written = None \<rparr>"
proof -
  have n: "''in.png'' \<noteq> []" by simp
  have e2: "events_to_second_poll example_fpu ''noise'' ''in.png'' 3 = [Reconstruct Noise, CancelPolled]"
    by (simp add: events_to_second_poll_def events_to_first_poll_def isReconstructNoise_def
        upscale_passes_def isReconstructScale_def)
  have up: "upscale_passes example_fpu ''noise'' 3 = 0"
    by (simp add: upscale_passes_def isReconstructScale_def)
  obtain st where S: "p_image_size st = (1, 1)"
      "p_events st = [Reconstruct Noise, CancelPolled, CancelPolled]"
    and R: "waifu2x example_fpu pixel_lib 0
       (example_obj ''noise'' 3 (blank_net (init_sizes 2 1) 0) (blank_net (init_sizes 2 1) 0))
       ''in.png'' ''out.png'' None
        = Some (finish example_fpu pixel_lib (shrinkRatio_of example_fpu 3) ''out.png'' [[5]] st)"
    using example_run[OF n example_plane(4), where fp = example_fpu and md = "''noise''" and r = 3]
    unfolding e2 up pixel_lib_def[symmetric] by (auto simp: example_plane poll_def)
  have iw: "\<And>img. imwrite pixel_lib ''out.png'' img"
    by (simp add: pixel_lib_def image_lib_fields)
  have t: "c_trunc (fp_mul example_fpu 1 (shrinkRatio_of example_fpu 3)) = 0"
    by (simp add: example_shrinkRatio example_mul c_trunc_def)
  have "finish example_fpu pixel_lib (shrinkRatio_of example_fpu 3) ''out.png'' [[5]] st
          = stop Uncaught (p_events st)"
    by (rule finish_cases(3)[OF S(1) iw]) (simp_all add: t)
  then show ?thesis unfolding R S(2) by (simp add: stop_def example_shrinkRatio)
qed

section \<open>Mode \<^verbatim>\<open>auto_scale\<close>\<close>

lemma example_events_plain:
  assumes "f \<noteq> []" "shrinkRatio_of example_fpu r = 1"
  shows "map_option events
           (waifu2x example_fpu example_lib 0
              (example_obj md r (blank_net (init_sizes 2 1) 0) (blank_net (init_sizes 2 1) 0))
              f ''out.png'' None)
         = Some (events_to_second_poll example_fpu md f r @ [CancelPolled, Written])"
proof -
  obtain st where S: "p_image_size st = (2 ^ upscale_passes example_fpu md r * 2,
                                         2 ^ upscale_passes example_fpu md r * 2)"
      "p_events st = events_to_second_poll example_fpu md f r @ [CancelPolled]"
    and R: "waifu2x example_fpu example_lib 0
                  (example_obj md r (blank_net (init_sizes 2 1) 0) (blank_net (init_sizes 2 1) 0))
                  f ''out.png'' None =
              Some (finish example_fpu example_lib (shrinkRatio_of example_fpu r) ''out.png''
                      [[1, 2], [3, 4]] st)"
    using example_run[OF assms(1) example_plane(1), where fp = example_fpu and md = md and r = r]
    unfolding example_lib_def[symmetric] by (auto simp: example_plane poll_def)
  have iw: "\<And>img. imwrite example_lib ''out.png'' img"
    by (simp add: example_lib_def image_lib_fields)
  have F: "events (finish example_fpu example_lib (shrinkRatio_of example_fpu r) ''out.png''
                     [[1, 2], [3, 4]] st)
            = p_events st @ [Written]"
    by (subst finish_cases(1)[OF S(1) iw]) (simp_all add: assms(2) example_mul c_trunc_of_int
        del: of_int_mult of_int_power)
  show ?thesis unfolding R using F S(2) by simp
qed

text \<open>
  Claim C4.  \<^verbatim>\<open>init\<close> loads the upscale network when the mode is \<^verbatim>\<open>auto_scale\<close>, but
  \<^verbatim>\<open>isReconstructScale\<close> in \<^verbatim>\<open>waifu2x\<close> does not name that mode: a run in mode
  \<^verbatim>\<open>auto_scale\<close> at ratio 2 on a JPEG file performs the denoise pass and no upscale pass,
  although \<^verbatim>\<open>scale2\<close> is 1.
\<close>

theorem auto_scale_skips_upscale:
  "map_option events
     (waifu2x example_fpu example_lib 0
        (example_obj ''auto_scale'' 2 (blank_net (init_sizes 2 1) 0) (blank_net (init_sizes 2 1) 0))
        ''photo.jpg'' ''out.png'' None)
     = Some [Reconstruct Noise, CancelPolled, CancelPolled, Written]
   \<and> map_option scale_passes
       (waifu2x example_fpu example_lib 0
          (example_obj ''auto_scale'' 2 (blank_net (init_sizes 2 1) 0) (blank_net (init_sizes 2 1) 0))
          ''photo.jpg'' ''out.png'' None) = Some 0
   \<and> scale2_of example_fpu 2 = 1"
proof -
  have j: "isReconstructNoise ''auto_scale'' ''photo.jpg''"
    by (simp add: isReconstructNoise_def isJpeg_def iequals_def path_extension_def
        path_filename_def to_lower_def Let_def)
  have e: "map_option events
     (waifu2x example_fpu example_lib 0
        (example_obj ''auto_scale'' 2 (blank_net (init_sizes 2 1) 0) (blank_net (init_sizes 2 1) 0))
        ''photo.jpg'' ''out.png'' None)
      = Some (events_to_second_poll example_fpu ''auto_scale'' ''photo.jpg'' 2 @ [CancelPolled, Written])"
    by (rule example_events_plain) (simp_all add: example_shrinkRatio)
  have v: "events_to_second_poll example_fpu ''auto_scale'' ''photo.jpg'' 2
             = [Reconstruct Noise, CancelPolled]"
    using j by (simp add: events_to_second_poll_def events_to_first_poll_def
        upscale_passes_def isReconstructScale_def)
  show ?thesis using e unfolding v
    by (auto simp: scale_passes_def example_scale2)
qed

section \<open>A failure of the engine\<close>

lemma reconstruct_pass_fails:
  assumes "ReconstructImage cf net fresh (p_blocks st) padded = Some (ret, im', blks')"
    and "ret \<noteq> eWaifu2xError_OK"
  shows "reconstruct_pass cf net nid fresh padded st
           = Some (Inl (stop (Returned ret) (p_events st @ [Reconstruct nid])))"
  using assms by (simp add: reconstruct_pass_def Let_def)

lemma scale_loop_first_failure:
  fixes net :: "'a net" and r :: "'img result"
  assumes "(scale_loop cf net fresh k st :: ('img result + 'a pass_state) option) = Some (Inr st')"
    and "scale_pass cf net fresh st' = Some (Inl r)" and "k < n"
  shows "scale_loop cf net fresh n st = Some (Inl r)"
  using assms
proof (induction k arbitrary: st n)
  case 0
  then obtain m where n: "n = Suc m" by (cases n) simp_all
  show ?case using 0 by (simp add: n)
next
  case (Suc k)
  then obtain m where n: "n = Suc m" "k < m" by (cases n) simp_all
  show ?case
  proof (cases "scale_pass cf net fresh st :: ('img result + 'a pass_state) option")
    case None
    then show ?thesis using Suc(2) by simp
  next
    case (Some a)
    show ?thesis
    proof (cases a)
      case (Inl x)
      then show ?thesis using Suc(2) Some by simp
    next
      case (Inr st1)
      have "(scale_loop cf net fresh k st1 :: ('img result + 'a pass_state) option) = Some (Inr st')"
        using Suc(2) Some Inr by simp
      then have "scale_loop cf net fresh m st1 = Some (Inl r)" using Suc(1) Suc(3) n(2) by blast
      then show ?thesis using Some Inr by (simp add: n(1))
    qed
  qed
qed

text \<open>
  Claim C7.  Let the engine fail for some batch of a padded canvas.  Then
  \<^verbatim>\<open>ReconstructImage\<close> returns \<^verbatim>\<open>eWaifu2xError_FailedProcessCaffe\<close> and the canvas is as it
  was on entry; the pass that called it returns that code at once; when the canvas is
  that of the denoise pass, \<^verbatim>\<open>waifu2x\<close> returns the code after this one reconstruction,
  before any call of the cancellation function; when it is that of an upscale pass,
  reached after \<open>k\<close> upscale passes that succeeded, \<^verbatim>\<open>waifu2x\<close> returns the code after
  this reconstruction, before the remaining passes and the second call of the
  cancellation function.  In both cases nothing is written.
\<close>

theorem engine_failure_aborts:
  fixes lib :: "('a, 'img) imglib" and obj :: "'a waifu2x_obj" and fp :: fpu
    and st :: "'a pass_state" and padded :: "'a mat"
  assumes "0 < CropSize" and "0 < BatchSize"
    and "rectangular padded" and "0 < mat_cols padded" and "0 < mat_rows padded"
    and "mat_cols padded smod output_size (init_sizes CropSize BatchSize) = 0"
    and "mat_rows padded smod output_size (init_sizes CropSize BatchSize) = 0"
    and "int q * BatchSize < BlockNum (init_sizes CropSize BatchSize) (mat_cols padded) (mat_rows padded)"
    and "net (batch_input (init_sizes CropSize BatchSize) padded (int q * BatchSize)) = None"
  shows "(\<exists>blks'. ReconstructImage (init_sizes CropSize BatchSize) net fresh blks padded
                     = Some (eWaifu2xError_FailedProcessCaffe, padded, blks'))
       \<and> (reconstruct_pass (init_sizes CropSize BatchSize) net nid fresh padded st
            :: ('img result + 'a pass_state) option)
           = Some (Inl \<lparr> outcome = Returned eWaifu2xError_FailedProcessCaffe,
                         events = p_events st @ [Reconstruct nid], written = None \<rparr>)
       \<and> (is_inited obj \<longrightarrow> sizes_of obj = init_sizes CropSize BatchSize \<longrightarrow> net_noise obj = net \<longrightarrow>
          LoadImage lib input_file = Some float_image \<longrightarrow>
          isReconstructNoise (mode obj) input_file \<longrightarrow>
          PaddingImage (init_sizes CropSize BatchSize) (CreateBrightnessImage lib float_image) = Some padded \<longrightarrow>
          waifu2x fp lib fresh obj input_file output_file cancel_func
            = Some \<lparr> outcome = Returned eWaifu2xError_FailedProcessCaffe,
                     events = [Reconstruct Noise], written = None \<rparr>)
       \<and> (is_inited obj \<longrightarrow> sizes_of obj = init_sizes CropSize BatchSize \<longrightarrow> net_scale obj = net \<longrightarrow>
          LoadImage lib input_file = Some float_image \<longrightarrow>
          isReconstructScale (mode obj) \<longrightarrow>
          (if isReconstructNoise (mode obj) input_file
           then (noise_pass (sizes_of obj) (net_noise obj) fresh
                   \<lparr> p_im = CreateBrightnessImage lib float_image,
                     p_image_size = (mat_cols (CreateBrightnessImage lib float_image),
                                     mat_rows (CreateBrightnessImage lib float_image)),
                     p_blocks = blocks_of obj, p_events = [] \<rparr>
                 :: ('img result + 'a pass_state) option)
           else Some (Inr \<lparr> p_im = CreateBrightnessImage lib float_image,
                            p_image_size = (mat_cols (CreateBrightnessImage lib float_image),
                                            mat_rows (CreateBrightnessImage lib float_image)),
                            p_blocks = blocks_of obj, p_events = [] \<rparr>)) = Some (Inr st1) \<longrightarrow>
          \<not> poll cancel_func (p_events st1) \<longrightarrow>
          (scale_loop (sizes_of obj) net fresh k (st1\<lparr> p_events := p_events st1 @ [CancelPolled] \<rparr>)
             :: ('img result + 'a pass_state) option) = Some (Inr st2) \<longrightarrow>
          k < nat (scale2_of fp (scale_ratio obj)) \<longrightarrow>
          mat_cols (p_im st2) \<noteq> 0 \<longrightarrow> mat_rows (p_im st2) \<noteq> 0 \<longrightarrow>
          PaddingImage (init_sizes CropSize BatchSize) (resize_nearest2x (p_im st2)) = Some padded \<longrightarrow>
          waifu2x fp lib fresh obj input_file output_file cancel_func
            = Some \<lparr> outcome = Returned eWaifu2xError_FailedProcessCaffe,
                     events = p_events st2 @ [Reconstruct Scale], written = None \<rparr>)"
proof -
  let ?cf = "init_sizes CropSize BatchSize"
  obtain cn H W where n: "CropSize = int cn" "0 < cn" "mat_rows padded = int H" "mat_cols padded = int W"
      "0 < H" "0 < W" "has_dims padded H W" "int cn dvd int W" "int cn dvd int H"
    using canvas_nat[OF assms(1,3,4,5,6,7)] by blast
  have q': "int q * BatchSize < BlockNum (init_sizes (int cn) BatchSize) (int W) (int H)"
    "net (batch_input (init_sizes (int cn) BatchSize) padded (int q * BatchSize)) = None"
    using assms(8,9) n(1,3,4) by simp_all
  have RI: "\<And>blks fresh. \<exists>blks'. ReconstructImage ?cf net fresh blks padded
                     = Some (eWaifu2xError_FailedProcessCaffe, padded, blks')"
    unfolding n(1)
    by (rule reconstruct_fails[where net = net, OF n(2) assms(2) n(7,6,5,8,9) q'])
  have RP: "\<And>nid (st :: 'a pass_state).
       (reconstruct_pass ?cf net nid fresh padded st :: ('img result + 'a pass_state) option)
         = Some (Inl \<lparr> outcome = Returned eWaifu2xError_FailedProcessCaffe,
                       events = p_events st @ [Reconstruct nid], written = None \<rparr>)"
  proof -
    fix nid and st :: "'a pass_state"
    obtain blks' where "ReconstructImage ?cf net fresh (p_blocks st) padded
                     = Some (eWaifu2xError_FailedProcessCaffe, padded, blks')"
      using RI by blast
    then show "(reconstruct_pass ?cf net nid fresh padded st :: ('img result + 'a pass_state) option)
         = Some (Inl \<lparr> outcome = Returned eWaifu2xError_FailedProcessCaffe,
                       events = p_events st @ [Reconstruct nid], written = None \<rparr>)"
      by (simp add: reconstruct_pass_fails stop_def)
  qed
  have N: "is_inited obj \<longrightarrow> sizes_of obj = ?cf \<longrightarrow> net_noise obj = net \<longrightarrow>
          LoadImage lib input_file = Some float_image \<longrightarrow>
          isReconstructNoise (mode obj) input_file \<longrightarrow>
          PaddingImage ?cf (CreateBrightnessImage lib float_image) = Some padded \<longrightarrow>
          waifu2x fp lib fresh obj input_file output_file cancel_func
            = Some \<lparr> outcome = Returned eWaifu2xError_FailedProcessCaffe,
                     events = [Reconstruct Noise], written = None \<rparr>"
    by (simp add: waifu2x_def Let_def noise_pass_def RP)
  have S: "is_inited obj \<longrightarrow> sizes_of obj = ?cf \<longrightarrow> net_scale obj = net \<longrightarrow>
          LoadImage lib input_file = Some float_image \<longrightarrow>
          isReconstructScale (mode obj) \<longrightarrow>
          (if isReconstructNoise (mode obj) input_file
           then (noise_pass (sizes_of obj) (net_noise obj) fresh
                   \<lparr> p_im = CreateBrightnessImage lib float_image,
                     p_image_size = (mat_cols (CreateBrightnessImage lib float_image),
                                     mat_rows (CreateBrightnessImage lib float_image)),
                     p_blocks = blocks_of obj, p_events = [] \<rparr>
                 :: ('img result + 'a pass_state) option)
           else Some (Inr \<lparr> p_im = CreateBrightnessImage lib float_image,
                            p_image_size = (mat_cols (CreateBrightnessImage lib float_image),
                                            mat_rows (CreateBrightnessImage lib float_image)),
                            p_blocks = blocks_of obj, p_events = [] \<rparr>)) = Some (Inr st1) \<longrightarrow>
          \<not> poll cancel_func (p_events st1) \<longrightarrow>
          (scale_loop (sizes_of obj) net fresh k (st1\<lparr> p_events := p_events st1 @ [CancelPolled] \<rparr>)
             :: ('img result + 'a pass_state) option) = Some (Inr st2) \<longrightarrow>
          k < nat (scale2_of fp (scale_ratio obj)) \<longrightarrow>
          mat_cols (p_im st2) \<noteq> 0 \<longrightarrow> mat_rows (p_im st2) \<noteq> 0 \<longrightarrow>
          PaddingImage ?cf (resize_nearest2x (p_im st2)) = Some padded \<longrightarrow>
          waifu2x fp lib fresh obj input_file output_file cancel_func
            = Some \<lparr> outcome = Returned eWaifu2xError_FailedProcessCaffe,
                     events = p_events st2 @ [Reconstruct Scale], written = None \<rparr>"
  proof (intro impI)
    let ?sa = "\<lparr> p_im = CreateBrightnessImage lib float_image,
                   p_image_size = (mat_cols (CreateBrightnessImage lib float_image),
                                   mat_rows (CreateBrightnessImage lib float_image)),
                   p_blocks = blocks_of obj, p_events = [] \<rparr>"
    let ?r = "\<lparr> outcome = Returned eWaifu2xError_FailedProcessCaffe,
                  events = p_events st2 @ [Reconstruct Scale], written = None \<rparr> :: 'img result"
    assume a: "is_inited obj" "sizes_of obj = ?cf" "net_scale obj = net"
      "LoadImage lib input_file = Some float_image" "isReconstructScale (mode obj)"
      and s1: "(if isReconstructNoise (mode obj) input_file
           then (noise_pass (sizes_of obj) (net_noise obj) fresh ?sa :: ('img result + 'a pass_state) option)
           else Some (Inr ?sa)) = Some (Inr st1)"
      and np: "\<not> poll cancel_func (p_events st1)"
      and sl: "(scale_loop (sizes_of obj) net fresh k (st1\<lparr> p_events := p_events st1 @ [CancelPolled] \<rparr>)
             :: ('img result + 'a pass_state) option) = Some (Inr st2)"
      and k: "k < nat (scale2_of fp (scale_ratio obj))"
      and z: "mat_cols (p_im st2) \<noteq> 0" "mat_rows (p_im st2) \<noteq> 0"
      and pd: "PaddingImage ?cf (resize_nearest2x (p_im st2)) = Some padded"
    have sp: "(scale_pass (sizes_of obj) net fresh st2 :: ('img result + 'a pass_state) option)
                = Some (Inl ?r)"
      using z pd by (simp add: scale_pass_def Let_def a(2) RP)
    have L: "(scale_loop (sizes_of obj) (net_scale obj) fresh (nat (scale2_of fp (scale_ratio obj)))
                (st1\<lparr> p_events := p_events st1 @ [CancelPolled] \<rparr>)
              :: ('img result + 'a pass_state) option) = Some (Inl ?r)"
      unfolding a(3) by (rule scale_loop_first_failure[OF sl sp k])
    have A: "after_noise fp lib fresh obj output_file cancel_func float_image
               (isReconstructScale (mode obj)) st1 = Some ?r"
      unfolding after_noise_def Let_def using np a(5) by (simp add: L)
    show "waifu2x fp lib fresh obj input_file output_file cancel_func = Some ?r"
      unfolding waifu2x_def Let_def a(4) option.case s1 using a(1) by (simp add: A)
  qed
  show ?thesis using RI RP N S by blast
qed

text \<open>
  The image of 2 by 2 pixels with an engine that throws: in mode \<^verbatim>\<open>noise\<close> the run ends
  after the denoise reconstruction, in mode \<^verbatim>\<open>scale\<close> at ratio 2 after the first call of
  the cancellation function and the upscale reconstruction.
\<close>

theorem engine_failure_aborts_witness:
  "waifu2x example_fpu example_lib 0
     (example_obj ''noise'' 1 failing_net (blank_net (init_sizes 2 1) 0))
     ''in.png'' ''out.png'' None
     = Some \<lparr> outcome = Returned eWaifu2xError_FailedProcessCaffe,
              events = [Reconstruct Noise], written = None \<rparr>
   \<and> waifu2x example_fpu example_lib 0
       (example_obj ''scale'' 2 (blank_net (init_sizes 2 1) 0) failing_net)
       ''in.png'' ''out.png'' None
     = Some \<lparr> outcome = Returned eWaifu2xError_FailedProcessCaffe,
              events = [CancelPolled, Reconstruct Scale], written = None \<rparr>
   \<and> (\<exists>blks'. ReconstructImage (init_sizes 2 1) failing_net 0 (blocks0 (init_sizes 2 1) 0)
                  [[1, 2], [3, 4::int]]
                = Some (eWaifu2xError_FailedProcessCaffe, [[1, 2], [3, 4]], blks'))"
proof -
  let ?cf = "init_sizes 2 1"
  let ?im = "[[1, 2], [3, 4::int]]"
  let ?im4 = "[[1, 1, 2, 2], [1, 1, 2, 2], [3, 3, 4, 4], [3, 3, 4, 4::int]]"
  let ?bn = "blank_net ?cf (0::int)"
  let ?sa = "\<lparr> p_im = ?im, p_image_size = (2, 2), p_blocks = blocks0 ?cf 0, p_events = [] \<rparr>"
  have d: "mat_cols ?im = 2" "mat_rows ?im = 2" "mat_cols ?im4 = 4" "mat_rows ?im4 = 4"
    by (simp_all add: mat_cols_def mat_rows_def)
  have pad: "PaddingImage ?cf ?im = Some ?im" "PaddingImage ?cf (resize_nearest2x ?im) = Some ?im4"
    by code_simp+
  have bn: "BlockNum ?cf 2 2 = 1" "BlockNum ?cf 4 4 = 4"
    by (simp_all add: BlockNum_def WidthNum_def HeightNum_def init_sizes_fields)
  have p: "(0::int) < 2" "(0::int) < 1" "rectangular ?im" "0 < mat_cols ?im" "0 < mat_rows ?im"
    "mat_cols ?im smod output_size ?cf = 0" "mat_rows ?im smod output_size ?cf = 0"
    "int 0 * 1 < BlockNum ?cf (mat_cols ?im) (mat_rows ?im)"
    "(failing_net :: int net) (batch_input ?cf ?im (int 0 * 1)) = None"
    by (simp_all add: rectangular_def d init_sizes_fields bn failing_net_def)
  have p4: "(0::int) < 2" "(0::int) < 1" "rectangular ?im4" "0 < mat_cols ?im4" "0 < mat_rows ?im4"
    "mat_cols ?im4 smod output_size ?cf = 0" "mat_rows ?im4 smod output_size ?cf = 0"
    "int 0 * 1 < BlockNum ?cf (mat_cols ?im4) (mat_rows ?im4)"
    "(failing_net :: int net) (batch_input ?cf ?im4 (int 0 * 1)) = None"
    by (simp_all add: rectangular_def d init_sizes_fields bn failing_net_def)
  note T = engine_failure_aborts[where net = "failing_net :: int net" and padded = ?im
      and CropSize = 2 and BatchSize = 1 and q = 0
      and fresh = 0 and blks = "blocks0 ?cf 0"
      and lib = example_lib and fp = example_fpu and input_file = "''in.png''"
      and output_file = "''out.png''" and cancel_func = None and float_image = ?im
      and obj = "example_obj ''noise'' 1 failing_net ?bn", OF p]
  have A: "waifu2x example_fpu example_lib 0 (example_obj ''noise'' 1 failing_net ?bn)
             ''in.png'' ''out.png'' None
     = Some \<lparr> outcome = Returned eWaifu2xError_FailedProcessCaffe,
              events = [Reconstruct Noise], written = None \<rparr>"
    using T[THEN conjunct2, THEN conjunct2, THEN conjunct1]
    by (simp add: example_obj_fields example_lib_def image_lib_fields isReconstructNoise_def pad)
  have C: "\<exists>blks'. ReconstructImage ?cf failing_net 0 (blocks0 ?cf 0) ?im
                = Some (eWaifu2xError_FailedProcessCaffe, ?im, blks')"
    using T[THEN conjunct1] .
  note T4 = engine_failure_aborts[where net = "failing_net :: int net" and padded = ?im4
      and CropSize = 2 and BatchSize = 1 and q = 0 and fresh = 0
      and lib = example_lib and fp = example_fpu and input_file = "''in.png''"
      and output_file = "''out.png''" and cancel_func = None and float_image = ?im
      and obj = "example_obj ''scale'' 2 ?bn failing_net" and k = 0 and ?st1.0 = ?sa
      and ?st2.0 = "?sa\<lparr> p_events := [CancelPolled] \<rparr>", OF p4]
  have B: "waifu2x example_fpu example_lib 0 (example_obj ''scale'' 2 ?bn failing_net)
             ''in.png'' ''out.png'' None
     = Some \<lparr> outcome = Returned eWaifu2xError_FailedProcessCaffe,
              events = [CancelPolled, Reconstruct Scale], written = None \<rparr>"
    using T4[THEN conjunct2, THEN conjunct2, THEN conjunct2]
    by (simp add: example_obj_fields example_obj_def example_lib_def image_lib_fields
        isReconstructNoise_def isReconstructScale_def pad d poll_def example_scale2)
  show ?thesis using A B C by blast
qed

section \<open>The alpha channel\<close>












end
